theory Spec2Isabelle
  imports Main "HOL-Library.Word"
begin

section \<open>Data model of the AthleteChain contracts\<close>

text \<open>
  The Solidity sources hold two versions of the ledger contract \<open>AthleteContract\<close>:
  the first one (address-gated, no access control) and the second one (role-gated,
  built on AccessControl). Functions of the first carry the suffix \<open>_A\<close>, functions of
  the second the suffix \<open>_B\<close>. Both use the same structs.

  \<open>uint256\<close> is a 256-bit word and \<open>address\<close> a 160-bit word. A Solidity mapping is a
  total function whose unwritten slots read as the zero value of the struct. A
  \<open>require\<close> that fails, an arithmetic overflow (Solidity 0.8 checks it) and an
  out-of-range array index are values \<open>Inl e\<close>; a call that returns \<open>Inl e\<close> has
  reverted, and the chain keeps the state the call started from (\<open>run_B\<close>, \<open>run_A\<close>).
\<close>

type_synonym uint256 = "256 word"
type_synonym address = "160 word"

text \<open>
  The kinds of failure are the taxonomy of the specification; the string is the reason
  of the \<open>require\<close> in the source. \<open>Panic\<close> is the compiler's own revert (overflow,
  index out of range).
\<close>

datatype error_kind =
  Unauthorized | InvalidState | InvalidInput | AlreadyExists | NotFound | TransferFailed | Panic

type_synonym error = "error_kind \<times> string"

datatype ContractState = Draft | Active | Completed | Disputed | Terminated

datatype MilestoneStatus = MsPending | MsCompleted | MsDisputed | MsRejected

record Milestone =
  description :: string
  amount :: uint256
  deadline :: uint256
  status :: MilestoneStatus
  evidence :: string
  paid :: bool

record SponsorshipContract =
  athlete :: address
  sponsor :: address
  contractIPFSHash :: string
  totalValue :: uint256
  startDate :: uint256
  endDate :: uint256
  state :: ContractState
  paymentToken :: address
  milestones :: "Milestone list"
  arbitrators :: "address list"
  updateHistory :: "string list"

text \<open>
  The role constants are keccak256 digests of their names; only their being distinct
  matters, so they are tags. \<open>DEFAULT_ADMIN_ROLE\<close> is the zero role of AccessControl.
\<close>

datatype role =
  DEFAULT_ADMIN_ROLE | ATHLETE_ROLE | SPONSOR_ROLE | AGENT_ROLE | TEAM_ROLE
  | ARBITRATOR_ROLE | MINTER_ROLE

text \<open>
  The storage of the ledger. \<open>roles\<close> is the role table of AccessControl; the first
  version of the ledger never reads it.
\<close>

type_synonym role_table = "role \<Rightarrow> address \<Rightarrow> bool"

record ledger =
  contracts :: "uint256 \<Rightarrow> SponsorshipContract"
  contractCount :: uint256
  roles :: role_table

definition zero_contract :: SponsorshipContract where
  "zero_contract =
     \<lparr>athlete = 0, sponsor = 0, contractIPFSHash = [], totalValue = 0, startDate = 0,
      endDate = 0, state = Draft, paymentToken = 0, milestones = [], arbitrators = [],
      updateHistory = []\<rparr>"

text \<open>The ledger as its constructor leaves it: the deployer holds the admin role.\<close>

definition ledger_init :: "address \<Rightarrow> ledger" where
  "ledger_init deployer =
     \<lparr>contracts = (\<lambda>_. zero_contract), contractCount = 0,
      roles = (\<lambda>r a. r = DEFAULT_ADMIN_ROLE \<and> a = deployer)\<rparr>"

definition hasRole :: "ledger \<Rightarrow> role \<Rightarrow> address \<Rightarrow> bool" where
  "hasRole s r a = roles s r a"

text \<open>
  What a call into another contract gave back, as the caller sees it: whether the
  transfer of native currency went through, what the token's \<open>transferFrom\<close> returned
  and what its \<open>allowance\<close> returned (\<open>None\<close>: the token call itself reverted).
  The called contract is not part of these sources. Where the called contract gets the
  gas to do so, it can call the ledger again before it returns: these calls, each with
  its sender, are the callback list of \<open>approveMilestone\<close> and of
  \<open>releaseMilestonePayment\<close> below. \<open>allowance\<close> is a view function of the
  token interface (a static call: it cannot write storage), and the \<open>transfer\<close> of
  native currency in \<open>approveMilestone\<close> forwards the stipend of 2300 gas, with which
  the receiver cannot write storage: these two calls are modelled by their result.
\<close>

record ext_calls =
  eth_sent :: bool
  token_transferFrom :: "bool option"
  token_allowance :: "uint256 option"

section \<open>The role-gated ledger (second version of AthleteContract)\<close>

definition createContract_B ::
  "ledger \<Rightarrow> address \<Rightarrow> address \<Rightarrow> address \<Rightarrow> string \<Rightarrow> uint256 \<Rightarrow> uint256 \<Rightarrow> uint256
     \<Rightarrow> address \<Rightarrow> address list \<Rightarrow> error + (ledger \<times> uint256)" where
  "createContract_B s sender ath spo hash tv sd ed tok arbs =
     (if \<not> (hasRole s ATHLETE_ROLE ath \<or> hasRole s AGENT_ROLE sender)
      then Inl (Unauthorized, ''Unauthorized: Only athlete or agent can create'')
      else if \<not> hasRole s SPONSOR_ROLE spo
      then Inl (Unauthorized, ''Sponsor must have SPONSOR_ROLE'')
      else if \<not> sd < ed
      then Inl (InvalidInput, ''End date must be after start date'')
      else if contractCount s = - 1
      then Inl (Panic, ''arithmetic overflow'')
      else
        let cid = contractCount s;
            c = (contracts s cid)
                  \<lparr>athlete := ath, sponsor := spo, contractIPFSHash := hash,
                   totalValue := tv, startDate := sd, endDate := ed, state := Draft,
                   paymentToken := tok, arbitrators := arbs\<rparr>
        in Inr (s\<lparr>contracts := (contracts s)(cid := c), contractCount := cid + 1\<rparr>, cid))"

text \<open>
  The loop of \<open>addMilestones\<close>: it adds each amount to the running total (a checked
  addition) and pushes one milestone per index. The three arrays have the same length
  when the loop starts.
\<close>

fun addMilestones_loop ::
  "string list \<Rightarrow> uint256 list \<Rightarrow> uint256 list \<Rightarrow> uint256 \<Rightarrow> Milestone list
     \<Rightarrow> error + (uint256 \<times> Milestone list)" where
  "addMilestones_loop (d # ds) (a # as) (dl # dls) acc ms =
     (if 2 ^ 256 \<le> unat acc + unat a
      then Inl (Panic, ''arithmetic overflow'')
      else addMilestones_loop ds as dls (acc + a)
             (ms @ [\<lparr>description = d, amount = a, deadline = dl, status = MsPending,
                     evidence = [], paid = False\<rparr>]))"
| "addMilestones_loop _ _ _ acc ms = Inr (acc, ms)"

definition addMilestones_B ::
  "ledger \<Rightarrow> address \<Rightarrow> uint256 \<Rightarrow> string list \<Rightarrow> uint256 list \<Rightarrow> uint256 list
     \<Rightarrow> error + ledger" where
  "addMilestones_B s sender cid descriptions amounts deadlines =
     (let c = contracts s cid in
      if \<not> (sender = athlete c \<or> sender = sponsor c \<or> hasRole s AGENT_ROLE sender)
      then Inl (Unauthorized, ''Unauthorized'')
      else if state c \<noteq> Draft
      then Inl (InvalidState, ''Contract not in draft state'')
      else if \<not> (length descriptions = length amounts \<and> length amounts = length deadlines)
      then Inl (InvalidInput, ''Arrays length mismatch'')
      else
        (case addMilestones_loop descriptions amounts deadlines 0 (milestones c) of
           Inl e \<Rightarrow> Inl e
         | Inr (totalMilestoneAmount, ms) \<Rightarrow>
             if totalMilestoneAmount \<noteq> totalValue c
             then Inl (InvalidInput, ''Total milestone amounts must match contract value'')
             else Inr (s\<lparr>contracts := (contracts s)(cid := c\<lparr>milestones := ms\<rparr>)\<rparr>)))"

definition activateContract_B ::
  "ext_calls \<Rightarrow> ledger \<Rightarrow> address \<Rightarrow> uint256 \<Rightarrow> error + ledger" where
  "activateContract_B ext s sender cid =
     (let c = contracts s cid in
      if sender \<noteq> sponsor c
      then Inl (Unauthorized, ''Only sponsor can activate contract'')
      else if state c \<noteq> Draft
      then Inl (InvalidState, ''Contract not in draft state'')
      else if \<not> 0 < length (milestones c)
      then Inl (InvalidState, ''Contract must have milestones'')
      else if paymentToken c \<noteq> 0 \<and> token_allowance ext = None
      then Inl (TransferFailed, [])
      else if paymentToken c \<noteq> 0 \<and> \<not> totalValue c \<le> the (token_allowance ext)
      then Inl (InvalidState, ''Insufficient token allowance'')
      else Inr (s\<lparr>contracts := (contracts s)(cid := c\<lparr>state := Active\<rparr>)\<rparr>))"

definition submitMilestone_B ::
  "ledger \<Rightarrow> address \<Rightarrow> uint256 \<Rightarrow> uint256 \<Rightarrow> string \<Rightarrow> error + ledger" where
  "submitMilestone_B s sender cid idx evidenceIPFSHash =
     (let c = contracts s cid; i = unat idx in
      if sender \<noteq> athlete c
      then Inl (Unauthorized, ''Only athlete can submit milestone'')
      else if state c \<noteq> Active
      then Inl (InvalidState, ''Contract not active'')
      else if \<not> i < length (milestones c)
      then Inl (InvalidInput, ''Invalid milestone index'')
      else if status (milestones c ! i) \<noteq> MsPending
      then Inl (InvalidState, ''Milestone not pending'')
      else Inr (s\<lparr>contracts := (contracts s)(cid := c\<lparr>milestones :=
             (milestones c)[i := (milestones c ! i)
                \<lparr>evidence := evidenceIPFSHash, status := MsCompleted\<rparr>]\<rparr>)\<rparr>))"

text \<open>The loop at the end of \<open>approveMilestone\<close>: it stops at the first unpaid milestone.\<close>

fun allCompleted :: "Milestone list \<Rightarrow> bool" where
  "allCompleted [] = True"
| "allCompleted (m # ms) = (if \<not> paid m then False else allCompleted ms)"

definition rejectMilestone_B ::
  "ledger \<Rightarrow> address \<Rightarrow> uint256 \<Rightarrow> uint256 \<Rightarrow> string \<Rightarrow> error + ledger" where
  "rejectMilestone_B s sender cid idx reason =
     (let c = contracts s cid; i = unat idx in
      if sender \<noteq> sponsor c
      then Inl (Unauthorized, ''Only sponsor can reject milestone'')
      else if state c \<noteq> Active
      then Inl (InvalidState, ''Contract not active'')
      else if \<not> i < length (milestones c)
      then Inl (InvalidInput, ''Invalid milestone index'')
      else if status (milestones c ! i) \<noteq> MsCompleted
      then Inl (InvalidState, ''Milestone not completed'')
      else if paid (milestones c ! i)
      then Inl (InvalidState, ''Payment already released'')
      else Inr (s\<lparr>contracts := (contracts s)(cid := c\<lparr>milestones :=
             (milestones c)[i := (milestones c ! i)\<lparr>status := MsRejected\<rparr>]\<rparr>)\<rparr>))"

definition raiseDispute_B :: "ledger \<Rightarrow> address \<Rightarrow> uint256 \<Rightarrow> string \<Rightarrow> error + ledger" where
  "raiseDispute_B s sender cid reason =
     (let c = contracts s cid in
      if \<not> (sender = athlete c \<or> sender = sponsor c)
      then Inl (Unauthorized, ''Only athlete or sponsor can raise dispute'')
      else if state c \<noteq> Active
      then Inl (InvalidState, ''Contract not active'')
      else Inr (s\<lparr>contracts := (contracts s)(cid := c\<lparr>state := Disputed\<rparr>)\<rparr>))"

text \<open>The loop of \<open>resolveDispute\<close> that looks the caller up in the arbitrator list.\<close>

fun isArbitrator :: "address \<Rightarrow> address list \<Rightarrow> bool" where
  "isArbitrator sender [] = False"
| "isArbitrator sender (a # as) = (if sender = a then True else isArbitrator sender as)"

definition resolveDispute_B :: "ledger \<Rightarrow> address \<Rightarrow> uint256 \<Rightarrow> bool \<Rightarrow> error + ledger" where
  "resolveDispute_B s sender cid athleteFavor =
     (let c = contracts s cid in
      if \<not> (isArbitrator sender (arbitrators c) \<or> hasRole s ARBITRATOR_ROLE sender)
      then Inl (Unauthorized, ''Only arbitrator can resolve dispute'')
      else if state c \<noteq> Disputed
      then Inl (InvalidState, ''Contract not disputed'')
      else Inr (s\<lparr>contracts := (contracts s)(cid :=
             c\<lparr>state := (if athleteFavor then Active else Terminated)\<rparr>)\<rparr>))"

definition updateContract_B :: "ledger \<Rightarrow> address \<Rightarrow> uint256 \<Rightarrow> string \<Rightarrow> error + ledger" where
  "updateContract_B s sender cid newContractIPFSHash =
     (let c = contracts s cid in
      if \<not> (sender = athlete c \<or> sender = sponsor c \<or> hasRole s AGENT_ROLE sender)
      then Inl (Unauthorized, ''Unauthorized'')
      else Inr (s\<lparr>contracts := (contracts s)(cid :=
             c\<lparr>updateHistory := updateHistory c @ [contractIPFSHash c],
               contractIPFSHash := newContractIPFSHash\<rparr>)\<rparr>))"

definition getContractDetails_B ::
  "ledger \<Rightarrow> uint256
     \<Rightarrow> error + (address \<times> address \<times> string \<times> uint256 \<times> uint256 \<times> uint256 \<times> ContractState \<times> address)"
  where
  "getContractDetails_B s cid =
     (let c = contracts s cid in
      Inr (athlete c, sponsor c, contractIPFSHash c, totalValue c, startDate c, endDate c,
           state c, paymentToken c))"

definition getMilestoneCount_B :: "ledger \<Rightarrow> uint256 \<Rightarrow> error + uint256" where
  "getMilestoneCount_B s cid = Inr (of_nat (length (milestones (contracts s cid))))"

text \<open>
  The role functions every contract here inherits from AccessControl, on a role table.
  Modelled from the spec: AccessControl is a library outside these sources; the
  administrator of every role is \<open>DEFAULT_ADMIN_ROLE\<close> (the sources never set another
  one), and a role is renounced by its holder only.
\<close>

definition grantRole :: "role_table \<Rightarrow> address \<Rightarrow> role \<Rightarrow> address \<Rightarrow> error + role_table" where
  "grantRole t sender r a =
     (if \<not> t DEFAULT_ADMIN_ROLE sender
      then Inl (Unauthorized, ''AccessControl: account is missing role'')
      else Inr (t(r := (t r)(a := True))))"

definition revokeRole :: "role_table \<Rightarrow> address \<Rightarrow> role \<Rightarrow> address \<Rightarrow> error + role_table" where
  "revokeRole t sender r a =
     (if \<not> t DEFAULT_ADMIN_ROLE sender
      then Inl (Unauthorized, ''AccessControl: account is missing role'')
      else Inr (t(r := (t r)(a := False))))"

definition renounceRole :: "role_table \<Rightarrow> address \<Rightarrow> role \<Rightarrow> address \<Rightarrow> error + role_table" where
  "renounceRole t sender r a =
     (if a \<noteq> sender
      then Inl (Unauthorized, ''AccessControl: can only renounce roles for self'')
      else Inr (t(r := (t r)(a := False))))"

definition set_roles :: "ledger \<Rightarrow> error + role_table \<Rightarrow> error + ledger" where
  "set_roles s r = (case r of Inl e \<Rightarrow> Inl e | Inr t \<Rightarrow> Inr (s\<lparr>roles := t\<rparr>))"

text \<open>
  One transaction sent to the role-gated ledger: every function that writes storage.
  The list that \<open>approveMilestone\<close> carries holds the calls that the token contract
  makes into the ledger, each with its sender, before \<open>transferFrom\<close> returns.
\<close>

datatype call_B =
  B_createContract address address string uint256 uint256 uint256 address "address list"
  | B_addMilestones uint256 "string list" "uint256 list" "uint256 list"
  | B_activateContract ext_calls uint256
  | B_submitMilestone uint256 uint256 string
  | B_approveMilestone ext_calls "(address \<times> call_B) list" uint256 uint256
  | B_rejectMilestone uint256 uint256 string
  | B_raiseDispute uint256 string
  | B_resolveDispute uint256 bool
  | B_updateContract uint256 string
  | B_grantRole role address
  | B_revokeRole role address
  | B_renounceRole role address

text \<open>
  A call that reaches the ledger while \<open>approveMilestone\<close> is running, that is, while
  the re-entrancy lock is held. Modelled from the spec: ReentrancyGuard is a library
  outside these sources; a function that carries \<open>nonReentrant\<close> reverts when the lock
  is held, and the lock is released when the function that took it returns.
  \<open>approveMilestone\<close> is the only function of this ledger that carries the modifier:
  every other function runs as it always does. A call that reverts inside the callback
  leaves the storage as it was (\<open>exec_locked_B\<close>); when the called contract lets the
  revert through, the whole external call has failed, which is the outcome \<open>None\<close> of
  \<open>ext_calls\<close>.
\<close>

fun step_locked_B :: "ledger \<Rightarrow> address \<Rightarrow> call_B \<Rightarrow> error + ledger" where
  "step_locked_B s sender (B_createContract ath spo hash tv sd ed tok arbs) =
     (case createContract_B s sender ath spo hash tv sd ed tok arbs of
        Inl e \<Rightarrow> Inl e | Inr (s', cid) \<Rightarrow> Inr s')"
| "step_locked_B s sender (B_addMilestones cid ds as dls) =
     addMilestones_B s sender cid ds as dls"
| "step_locked_B s sender (B_activateContract ext cid) = activateContract_B ext s sender cid"
| "step_locked_B s sender (B_submitMilestone cid idx ev) =
     submitMilestone_B s sender cid idx ev"
| "step_locked_B s sender (B_approveMilestone ext cb cid idx) =
     Inl (InvalidState, ''ReentrancyGuard: reentrant call'')"
| "step_locked_B s sender (B_rejectMilestone cid idx reason) =
     rejectMilestone_B s sender cid idx reason"
| "step_locked_B s sender (B_raiseDispute cid reason) = raiseDispute_B s sender cid reason"
| "step_locked_B s sender (B_resolveDispute cid favor) = resolveDispute_B s sender cid favor"
| "step_locked_B s sender (B_updateContract cid hash) = updateContract_B s sender cid hash"
| "step_locked_B s sender (B_grantRole r a) = set_roles s (grantRole (roles s) sender r a)"
| "step_locked_B s sender (B_revokeRole r a) = set_roles s (revokeRole (roles s) sender r a)"
| "step_locked_B s sender (B_renounceRole r a) =
     set_roles s (renounceRole (roles s) sender r a)"

definition exec_locked_B :: "ledger \<Rightarrow> address \<times> call_B \<Rightarrow> ledger" where
  "exec_locked_B s tx =
     (case step_locked_B s (fst tx) (snd tx) of Inl e \<Rightarrow> s | Inr s' \<Rightarrow> s')"

definition run_locked_B :: "ledger \<Rightarrow> (address \<times> call_B) list \<Rightarrow> ledger" where
  "run_locked_B s cb = foldl exec_locked_B s cb"

text \<open>
  \<open>approveMilestone\<close> up to the return of the transfer: the checks, \<open>paid = true\<close>
  (written before the transfer) and the outcome of the transfer. The amount passed to
  the transfer is read before the call.
\<close>

definition approve_begin ::
  "ext_calls \<Rightarrow> ledger \<Rightarrow> address \<Rightarrow> uint256 \<Rightarrow> uint256 \<Rightarrow> error + ledger" where
  "approve_begin ext s sender cid idx =
     (let c = contracts s cid; i = unat idx in
      if sender \<noteq> sponsor c
      then Inl (Unauthorized, ''Only sponsor can approve milestone'')
      else if state c \<noteq> Active
      then Inl (InvalidState, ''Contract not active'')
      else if \<not> i < length (milestones c)
      then Inl (InvalidInput, ''Invalid milestone index'')
      else if status (milestones c ! i) \<noteq> MsCompleted
      then Inl (InvalidState, ''Milestone not completed'')
      else if paid (milestones c ! i)
      then Inl (InvalidState, ''Payment already released'')
      else
        let ms = (milestones c)[i := (milestones c ! i)\<lparr>paid := True\<rparr>] in
        if paymentToken c = 0 \<and> \<not> eth_sent ext
        then Inl (TransferFailed, [])
        else if paymentToken c \<noteq> 0 \<and> token_transferFrom ext = None
        then Inl (TransferFailed, [])
        else if paymentToken c \<noteq> 0 \<and> token_transferFrom ext = Some False
        then Inl (TransferFailed, ''Token transfer failed'')
        else Inr (s\<lparr>contracts := (contracts s)(cid := c\<lparr>milestones := ms\<rparr>)\<rparr>))"

text \<open>
  \<open>approveMilestone\<close> after the transfer: the loop over the milestones as the storage
  then holds them, and the write of Completed when none is unpaid.
\<close>

definition approve_end :: "ledger \<Rightarrow> uint256 \<Rightarrow> ledger" where
  "approve_end s cid =
     (let c = contracts s cid in
      if allCompleted (milestones c)
      then s\<lparr>contracts := (contracts s)(cid := c\<lparr>state := Completed\<rparr>)\<rparr>
      else s)"

text \<open>
  \<open>approveMilestone\<close>. With a token as payment asset, the calls \<open>cb\<close> of the token
  contract run, under the lock, on the storage as \<open>approve_begin\<close> left it, and the
  function goes on from the storage they leave. When the transfer fails the whole call
  reverts, the callback with it.
\<close>

definition approveMilestone_B ::
  "ext_calls \<Rightarrow> (address \<times> call_B) list \<Rightarrow> ledger \<Rightarrow> address \<Rightarrow> uint256 \<Rightarrow> uint256
     \<Rightarrow> error + ledger" where
  "approveMilestone_B ext cb s sender cid idx =
     (case approve_begin ext s sender cid idx of
        Inl e \<Rightarrow> Inl e
      | Inr s1 \<Rightarrow>
          Inr (approve_end
                 (if paymentToken (contracts s cid) = 0 then s1 else run_locked_B s1 cb) cid))"

text \<open>
  \<open>step_B\<close> dispatches a transaction sent to the ledger while no call is running;
  \<open>exec_B\<close> is the chain's rule that a reverted call leaves the storage as it was;
  \<open>run_B\<close> runs a sequence of transactions, each with its sender.
\<close>

fun step_B :: "ledger \<Rightarrow> address \<Rightarrow> call_B \<Rightarrow> error + ledger" where
  "step_B s sender (B_approveMilestone ext cb cid idx) =
     approveMilestone_B ext cb s sender cid idx"
| "step_B s sender call = step_locked_B s sender call"

definition exec_B :: "ledger \<Rightarrow> address \<times> call_B \<Rightarrow> ledger" where
  "exec_B s tx = (case step_B s (fst tx) (snd tx) of Inl e \<Rightarrow> s | Inr s' \<Rightarrow> s')"

definition run_B :: "ledger \<Rightarrow> (address \<times> call_B) list \<Rightarrow> ledger" where
  "run_B s txs = foldl exec_B s txs"

section \<open>The address-gated ledger (first version of AthleteContract)\<close>

definition createContract_A ::
  "ledger \<Rightarrow> address \<Rightarrow> address \<Rightarrow> address \<Rightarrow> string \<Rightarrow> uint256 \<Rightarrow> uint256 \<Rightarrow> uint256
     \<Rightarrow> address \<Rightarrow> address list \<Rightarrow> error + (ledger \<times> uint256)" where
  "createContract_A s sender ath spo hash tv sd ed tok arbs =
     (if \<not> sd < ed
      then Inl (InvalidInput, ''End date must be after start date'')
      else if \<not> (ath \<noteq> 0 \<and> spo \<noteq> 0)
      then Inl (InvalidInput, ''Invalid addresses'')
      else if contractCount s = - 1
      then Inl (Panic, ''arithmetic overflow'')
      else
        let cid = contractCount s;
            c = (contracts s cid)
                  \<lparr>athlete := ath, sponsor := spo, contractIPFSHash := hash,
                   totalValue := tv, startDate := sd, endDate := ed, state := Draft,
                   paymentToken := tok, arbitrators := arbs\<rparr>
        in Inr (s\<lparr>contracts := (contracts s)(cid := c), contractCount := cid + 1\<rparr>, cid))"

definition addMilestones_A ::
  "ledger \<Rightarrow> address \<Rightarrow> uint256 \<Rightarrow> string list \<Rightarrow> uint256 list \<Rightarrow> uint256 list
     \<Rightarrow> error + ledger" where
  "addMilestones_A s sender cid descriptions amounts deadlines =
     (let c = contracts s cid in
      if \<not> (sender = athlete c \<or> sender = sponsor c)
      then Inl (Unauthorized, ''Only athlete or sponsor can modify'')
      else if state c \<noteq> Draft
      then Inl (InvalidState, ''Contract not in draft state'')
      else if \<not> (length descriptions = length amounts \<and> length amounts = length deadlines)
      then Inl (InvalidInput, ''Arrays length mismatch'')
      else
        (case addMilestones_loop descriptions amounts deadlines 0 (milestones c) of
           Inl e \<Rightarrow> Inl e
         | Inr (totalMilestoneAmount, ms) \<Rightarrow>
             if totalMilestoneAmount \<noteq> totalValue c
             then Inl (InvalidInput, ''Total milestone amounts must match contract value'')
             else Inr (s\<lparr>contracts := (contracts s)(cid := c\<lparr>milestones := ms\<rparr>)\<rparr>)))"

definition activateContract_A :: "ledger \<Rightarrow> address \<Rightarrow> uint256 \<Rightarrow> error + ledger" where
  "activateContract_A s sender cid =
     (let c = contracts s cid in
      if \<not> (sender = athlete c \<or> sender = sponsor c)
      then Inl (Unauthorized, ''Only athlete or sponsor can activate'')
      else if state c \<noteq> Draft
      then Inl (InvalidState, ''Contract not in draft state'')
      else if \<not> 0 < length (milestones c)
      then Inl (InvalidState, ''No milestones defined'')
      else Inr (s\<lparr>contracts := (contracts s)(cid := c\<lparr>state := Active\<rparr>)\<rparr>))"

text \<open>
  \<open>completeMilestone\<close> and \<open>releaseMilestonePayment\<close> index the milestone array
  without a check of their own: an index out of range is the compiler's panic.
\<close>

definition completeMilestone_A ::
  "ledger \<Rightarrow> address \<Rightarrow> uint256 \<Rightarrow> uint256 \<Rightarrow> string \<Rightarrow> error + ledger" where
  "completeMilestone_A s sender cid idx ev =
     (let c = contracts s cid; i = unat idx in
      if sender \<noteq> athlete c
      then Inl (Unauthorized, ''Only athlete can complete milestone'')
      else if state c \<noteq> Active
      then Inl (InvalidState, ''Contract not active'')
      else if \<not> i < length (milestones c)
      then Inl (Panic, ''array index out of bounds'')
      else if status (milestones c ! i) \<noteq> MsPending
      then Inl (InvalidState, ''Invalid milestone status'')
      else Inr (s\<lparr>contracts := (contracts s)(cid := c\<lparr>milestones :=
             (milestones c)[i := (milestones c ! i)
                \<lparr>status := MsCompleted, evidence := ev\<rparr>]\<rparr>)\<rparr>))"

definition raiseDispute_A :: "ledger \<Rightarrow> address \<Rightarrow> uint256 \<Rightarrow> string \<Rightarrow> error + ledger" where
  "raiseDispute_A s sender cid reason =
     (let c = contracts s cid in
      if \<not> (sender = athlete c \<or> sender = sponsor c)
      then Inl (Unauthorized, ''Only athlete or sponsor can raise dispute'')
      else if state c \<noteq> Active
      then Inl (InvalidState, ''Contract not active'')
      else Inr (s\<lparr>contracts := (contracts s)(cid := c\<lparr>state := Disputed\<rparr>)\<rparr>))"

definition resolveDispute_A :: "ledger \<Rightarrow> address \<Rightarrow> uint256 \<Rightarrow> bool \<Rightarrow> error + ledger" where
  "resolveDispute_A s sender cid athleteFavor =
     (let c = contracts s cid in
      if \<not> isArbitrator sender (arbitrators c)
      then Inl (Unauthorized, ''Only arbitrator can resolve dispute'')
      else if state c \<noteq> Disputed
      then Inl (InvalidState, ''Contract not disputed'')
      else Inr (s\<lparr>contracts := (contracts s)(cid :=
             c\<lparr>state := (if athleteFavor then Active else Terminated)\<rparr>)\<rparr>))"

definition updateContract_A :: "ledger \<Rightarrow> address \<Rightarrow> uint256 \<Rightarrow> string \<Rightarrow> error + ledger" where
  "updateContract_A s sender cid newContractIPFSHash =
     (let c = contracts s cid in
      if \<not> (sender = athlete c \<or> sender = sponsor c)
      then Inl (Unauthorized, ''Only athlete or sponsor can update'')
      else Inr (s\<lparr>contracts := (contracts s)(cid :=
             c\<lparr>updateHistory := updateHistory c @ [contractIPFSHash c],
               contractIPFSHash := newContractIPFSHash\<rparr>)\<rparr>))"

text \<open>
  One transaction sent to the address-gated ledger. The list that
  \<open>releaseMilestonePayment\<close> carries holds the calls that the receiver of the payment
  (the athlete's account for native currency, the token contract otherwise) makes into
  the ledger before the transfer returns.
\<close>

datatype call_A =
  A_createContract address address string uint256 uint256 uint256 address "address list"
  | A_addMilestones uint256 "string list" "uint256 list" "uint256 list"
  | A_activateContract uint256
  | A_completeMilestone uint256 uint256 string
  | A_releaseMilestonePayment ext_calls "(address \<times> call_A) list" uint256 uint256 uint256
  | A_raiseDispute uint256 string
  | A_resolveDispute uint256 bool
  | A_updateContract uint256 string

text \<open>
  A call that reaches the ledger while \<open>releaseMilestonePayment\<close> is running: that
  function, the only one that carries \<open>nonReentrant\<close>, reverts; the others run.
\<close>

fun step_locked_A :: "ledger \<Rightarrow> address \<Rightarrow> call_A \<Rightarrow> error + ledger" where
  "step_locked_A s sender (A_createContract ath spo hash tv sd ed tok arbs) =
     (case createContract_A s sender ath spo hash tv sd ed tok arbs of
        Inl e \<Rightarrow> Inl e | Inr (s', cid) \<Rightarrow> Inr s')"
| "step_locked_A s sender (A_addMilestones cid ds as dls) =
     addMilestones_A s sender cid ds as dls"
| "step_locked_A s sender (A_activateContract cid) = activateContract_A s sender cid"
| "step_locked_A s sender (A_completeMilestone cid idx ev) =
     completeMilestone_A s sender cid idx ev"
| "step_locked_A s sender (A_releaseMilestonePayment ext cb v cid idx) =
     Inl (InvalidState, ''ReentrancyGuard: reentrant call'')"
| "step_locked_A s sender (A_raiseDispute cid reason) = raiseDispute_A s sender cid reason"
| "step_locked_A s sender (A_resolveDispute cid favor) = resolveDispute_A s sender cid favor"
| "step_locked_A s sender (A_updateContract cid hash) = updateContract_A s sender cid hash"

definition exec_locked_A :: "ledger \<Rightarrow> address \<times> call_A \<Rightarrow> ledger" where
  "exec_locked_A s tx =
     (case step_locked_A s (fst tx) (snd tx) of Inl e \<Rightarrow> s | Inr s' \<Rightarrow> s')"

definition run_locked_A :: "ledger \<Rightarrow> (address \<times> call_A) list \<Rightarrow> ledger" where
  "run_locked_A s cb = foldl exec_locked_A s cb"

text \<open>
  \<open>releaseMilestonePayment\<close> is payable: \<open>msg_value\<close> is the native currency sent
  with the call. Both transfers hand all the gas to the called account, whose calls
  \<open>cb\<close> run, under the lock, on the storage the checks were made on. \<open>paid\<close> is set
  after the transfer, in the milestone of the storage the callback left (the milestone
  is a storage reference, and no function shortens a milestone array). When the transfer
  fails the whole call reverts, the callback with it.
\<close>

definition releaseMilestonePayment_A ::
  "ext_calls \<Rightarrow> (address \<times> call_A) list \<Rightarrow> ledger \<Rightarrow> address \<Rightarrow> uint256 \<Rightarrow> uint256
     \<Rightarrow> uint256 \<Rightarrow> error + ledger" where
  "releaseMilestonePayment_A ext cb s sender msg_value cid idx =
     (let c = contracts s cid; i = unat idx in
      if sender \<noteq> sponsor c
      then Inl (Unauthorized, ''Only sponsor can release payment'')
      else if state c \<noteq> Active
      then Inl (InvalidState, ''Contract not active'')
      else if \<not> i < length (milestones c)
      then Inl (Panic, ''array index out of bounds'')
      else if status (milestones c ! i) \<noteq> MsCompleted
      then Inl (InvalidState, ''Milestone not completed'')
      else if paid (milestones c ! i)
      then Inl (InvalidState, ''Payment already released'')
      else if paymentToken c = 0 \<and> msg_value \<noteq> amount (milestones c ! i)
      then Inl (InvalidInput, ''Incorrect payment amount'')
      else if paymentToken c = 0 \<and> \<not> eth_sent ext
      then Inl (TransferFailed, ''ETH transfer failed'')
      else if paymentToken c \<noteq> 0 \<and> token_transferFrom ext = None
      then Inl (TransferFailed, [])
      else if paymentToken c \<noteq> 0 \<and> token_transferFrom ext = Some False
      then Inl (TransferFailed, ''Token transfer failed'')
      else
        let s2 = run_locked_A s cb; c2 = contracts s2 cid in
        Inr (s2\<lparr>contracts := (contracts s2)(cid := c2\<lparr>milestones :=
               (milestones c2)[i := (milestones c2 ! i)\<lparr>paid := True\<rparr>]\<rparr>)\<rparr>))"

fun step_A :: "ledger \<Rightarrow> address \<Rightarrow> call_A \<Rightarrow> error + ledger" where
  "step_A s sender (A_releaseMilestonePayment ext cb v cid idx) =
     releaseMilestonePayment_A ext cb s sender v cid idx"
| "step_A s sender call = step_locked_A s sender call"

definition exec_A :: "ledger \<Rightarrow> address \<times> call_A \<Rightarrow> ledger" where
  "exec_A s tx = (case step_A s (fst tx) (snd tx) of Inl e \<Rightarrow> s | Inr s' \<Rightarrow> s')"

definition run_A :: "ledger \<Rightarrow> (address \<times> call_A) list \<Rightarrow> ledger" where
  "run_A s txs = foldl exec_A s txs"

text \<open>The first version has no constructor: its storage starts at zero.\<close>

definition ledger_init_A :: ledger where
  "ledger_init_A =
     \<lparr>contracts = (\<lambda>_. zero_contract), contractCount = 0, roles = (\<lambda>r a. False)\<rparr>"

section \<open>The dispute arbitration contract (DisputeResolution)\<close>

record Dispute =
  contractId :: uint256
  initiator :: address
  evidenceIPFSHash :: string
  reason :: string
  timestamp :: uint256
  resolved :: bool
  athleteFavor :: bool
  votedArbitrators :: "address list"
  arbitratorVotes :: "address \<Rightarrow> bool"
  athleteVotes :: uint256
  sponsorVotes :: uint256

text \<open>
  The storage of DisputeResolution. \<open>dr_self\<close> is the contract's own address: it is
  the \<open>msg.sender\<close> the ledger sees when DisputeResolution calls it.
\<close>

record dispute_resolution =
  dr_self :: address
  disputes :: "uint256 \<Rightarrow> Dispute"
  disputeCount :: uint256
  disputeIdOf :: "uint256 \<Rightarrow> uint256"
  dr_roles :: role_table

definition zero_dispute :: Dispute where
  "zero_dispute =
     \<lparr>contractId = 0, initiator = 0, evidenceIPFSHash = [], reason = [], timestamp = 0,
      resolved = False, athleteFavor = False, votedArbitrators = [],
      arbitratorVotes = (\<lambda>_. False), athleteVotes = 0, sponsorVotes = 0\<rparr>"

definition dr_init :: "address \<Rightarrow> address \<Rightarrow> dispute_resolution" where
  "dr_init self deployer =
     \<lparr>dr_self = self, disputes = (\<lambda>_. zero_dispute), disputeCount = 0,
      disputeIdOf = (\<lambda>_. 0),
      dr_roles = (\<lambda>r a. r = DEFAULT_ADMIN_ROLE \<and> a = deployer)\<rparr>"

text \<open>
  DisputeResolution works on the ledger it was deployed with; its functions take the
  ledger's storage and give it back. The ledger is the role-gated version. \<open>now\<close> is
  \<open>block.timestamp\<close>.
\<close>

definition createDispute ::
  "dispute_resolution \<Rightarrow> ledger \<Rightarrow> address \<Rightarrow> uint256 \<Rightarrow> uint256 \<Rightarrow> string \<Rightarrow> string
     \<Rightarrow> error + (dispute_resolution \<times> ledger \<times> uint256)" where
  "createDispute d l sender now cid ev rsn =
     (case getContractDetails_B l cid of
        Inl e \<Rightarrow> Inl e
      | Inr (ath, spo, _, _, _, _, st, _) \<Rightarrow>
          if \<not> (sender = ath \<or> sender = spo)
          then Inl (Unauthorized, ''Only athlete or sponsor can create dispute'')
          else if st = Disputed
          then Inl (AlreadyExists, ''Dispute already exists'')
          else if st = Terminated
          then Inl (InvalidState, ''Contract already terminated'')
          else
            (case raiseDispute_B l (dr_self d) cid rsn of
               Inl e \<Rightarrow> Inl e
             | Inr l' \<Rightarrow>
                 if disputeCount d = - 1
                 then Inl (Panic, ''arithmetic overflow'')
                 else
                   let disputeId = disputeCount d;
                       dispute = (disputes d disputeId)
                         \<lparr>contractId := cid, initiator := sender, evidenceIPFSHash := ev,
                          reason := rsn, timestamp := now, resolved := False\<rparr>
                   in Inr (d\<lparr>disputeCount := disputeId + 1,
                             disputes := (disputes d)(disputeId := dispute),
                             disputeIdOf := (disputeIdOf d)(cid := disputeId)\<rparr>,
                           l', disputeId)))"

text \<open>The internal \<open>resolveDispute\<close>: the outcome is the direction with more votes.\<close>

definition resolveDispute ::
  "dispute_resolution \<Rightarrow> ledger \<Rightarrow> uint256 \<Rightarrow> error + (dispute_resolution \<times> ledger)" where
  "resolveDispute d l disputeId =
     (let dispute = disputes d disputeId in
      if resolved dispute
      then Inl (InvalidState, ''Dispute already resolved'')
      else
        let favor = (sponsorVotes dispute < athleteVotes dispute);
            dispute' = dispute\<lparr>resolved := True, athleteFavor := favor\<rparr>
        in (case resolveDispute_B l (dr_self d) (contractId dispute) favor of
              Inl e \<Rightarrow> Inl e
            | Inr l' \<Rightarrow> Inr (d\<lparr>disputes := (disputes d)(disputeId := dispute')\<rparr>, l')))"

text \<open>The loop of \<open>voteOnDispute\<close> that rejects an arbitrator who has voted.\<close>

fun alreadyVoted :: "address \<Rightarrow> address list \<Rightarrow> bool" where
  "alreadyVoted sender [] = False"
| "alreadyVoted sender (a # as) = (if a = sender then True else alreadyVoted sender as)"

definition voteOnDispute ::
  "dispute_resolution \<Rightarrow> ledger \<Rightarrow> address \<Rightarrow> uint256 \<Rightarrow> bool
     \<Rightarrow> error + (dispute_resolution \<times> ledger)" where
  "voteOnDispute d l sender disputeId favor =
     (let dispute = disputes d disputeId in
      if \<not> dr_roles d ARBITRATOR_ROLE sender
      then Inl (Unauthorized, ''Only arbitrator can vote'')
      else if resolved dispute
      then Inl (InvalidState, ''Dispute already resolved'')
      else if alreadyVoted sender (votedArbitrators dispute)
      then Inl (AlreadyExists, ''Arbitrator already voted'')
      else if favor \<and> athleteVotes dispute = - 1
      then Inl (Panic, ''arithmetic overflow'')
      else if \<not> favor \<and> sponsorVotes dispute = - 1
      then Inl (Panic, ''arithmetic overflow'')
      else
        let dispute' = dispute
              \<lparr>arbitratorVotes := (arbitratorVotes dispute)(sender := favor),
               votedArbitrators := votedArbitrators dispute @ [sender],
               athleteVotes := (if favor then athleteVotes dispute + 1 else athleteVotes dispute),
               sponsorVotes := (if favor then sponsorVotes dispute else sponsorVotes dispute + 1)\<rparr>;
            d' = d\<lparr>disputes := (disputes d)(disputeId := dispute')\<rparr>;
            half = (of_nat (length (votedArbitrators dispute')) :: uint256) div 2
        in if half < athleteVotes dispute' \<or> half < sponsorVotes dispute'
           then resolveDispute d' l disputeId
           else Inr (d', l))"

definition forceResolveDispute ::
  "dispute_resolution \<Rightarrow> ledger \<Rightarrow> address \<Rightarrow> uint256 \<Rightarrow> bool
     \<Rightarrow> error + (dispute_resolution \<times> ledger)" where
  "forceResolveDispute d l sender disputeId favor =
     (let dispute = disputes d disputeId in
      if \<not> dr_roles d DEFAULT_ADMIN_ROLE sender
      then Inl (Unauthorized, ''Only admin can force resolve'')
      else if resolved dispute
      then Inl (InvalidState, ''Dispute already resolved'')
      else
        (case resolveDispute_B l (dr_self d) (contractId dispute) favor of
           Inl e \<Rightarrow> Inl e
         | Inr l' \<Rightarrow>
             Inr (d\<lparr>disputes := (disputes d)(disputeId :=
                    dispute\<lparr>resolved := True, athleteFavor := favor\<rparr>)\<rparr>, l')))"

definition set_dr_roles ::
  "dispute_resolution \<Rightarrow> ledger \<Rightarrow> error + role_table
     \<Rightarrow> error + (dispute_resolution \<times> ledger)" where
  "set_dr_roles d l r = (case r of Inl e \<Rightarrow> Inl e | Inr t \<Rightarrow> Inr (d\<lparr>dr_roles := t\<rparr>, l))"

text \<open>
  One transaction of the system of the two contracts: a call to the ledger, or a call to
  DisputeResolution (\<open>submitEvidence\<close> writes no storage and is left out). The calls
  DisputeResolution makes go to the ledger only, which calls nothing from the functions
  DisputeResolution uses: no call reaches DisputeResolution while one of its functions
  runs. A token contract called by the ledger's \<open>approveMilestone\<close> can call either
  contract before it returns: \<open>W_ledger\<close> carries an \<open>approveMilestone\<close> whose
  callback stays in the ledger, \<open>W_approveMilestone\<close> one whose callback is a list of
  calls to either contract.
\<close>

datatype call_W =
  W_ledger call_B
  | W_createDispute uint256 uint256 string string
  | W_voteOnDispute uint256 bool
  | W_forceResolveDispute uint256 bool
  | W_grantRole role address
  | W_revokeRole role address
  | W_renounceRole role address
  | W_approveMilestone ext_calls "(address \<times> call_W) list" uint256 uint256

text \<open>
  A call that reaches the two contracts while the ledger's \<open>approveMilestone\<close> is
  running: the ledger refuses a second \<open>approveMilestone\<close>, DisputeResolution has no
  lock of its own and runs as always.
\<close>

fun step_locked_W ::
  "dispute_resolution \<times> ledger \<Rightarrow> address \<Rightarrow> call_W
     \<Rightarrow> error + (dispute_resolution \<times> ledger)" where
  "step_locked_W (d, l) sender (W_ledger c) =
     (case step_locked_B l sender c of Inl e \<Rightarrow> Inl e | Inr l' \<Rightarrow> Inr (d, l'))"
| "step_locked_W (d, l) sender (W_createDispute now cid ev rsn) =
     (case createDispute d l sender now cid ev rsn of
        Inl e \<Rightarrow> Inl e | Inr (d', l', disputeId) \<Rightarrow> Inr (d', l'))"
| "step_locked_W (d, l) sender (W_voteOnDispute disputeId favor) =
     voteOnDispute d l sender disputeId favor"
| "step_locked_W (d, l) sender (W_forceResolveDispute disputeId favor) =
     forceResolveDispute d l sender disputeId favor"
| "step_locked_W (d, l) sender (W_grantRole r a) =
     set_dr_roles d l (grantRole (dr_roles d) sender r a)"
| "step_locked_W (d, l) sender (W_revokeRole r a) =
     set_dr_roles d l (revokeRole (dr_roles d) sender r a)"
| "step_locked_W (d, l) sender (W_renounceRole r a) =
     set_dr_roles d l (renounceRole (dr_roles d) sender r a)"
| "step_locked_W (d, l) sender (W_approveMilestone ext cb cid idx) =
     Inl (InvalidState, ''ReentrancyGuard: reentrant call'')"

definition exec_locked_W ::
  "dispute_resolution \<times> ledger \<Rightarrow> address \<times> call_W \<Rightarrow> dispute_resolution \<times> ledger" where
  "exec_locked_W w tx =
     (case step_locked_W w (fst tx) (snd tx) of Inl e \<Rightarrow> w | Inr w' \<Rightarrow> w')"

definition run_locked_W ::
  "dispute_resolution \<times> ledger \<Rightarrow> (address \<times> call_W) list \<Rightarrow> dispute_resolution \<times> ledger"
  where
  "run_locked_W w cb = foldl exec_locked_W w cb"

text \<open>
  \<open>step_W\<close> dispatches a transaction sent while no call is running. The ledger's
  \<open>approveMilestone\<close> with a callback into both contracts is \<open>approve_begin\<close>, the
  callback on the storage of both, then \<open>approve_end\<close>.
\<close>

fun step_W ::
  "dispute_resolution \<times> ledger \<Rightarrow> address \<Rightarrow> call_W
     \<Rightarrow> error + (dispute_resolution \<times> ledger)" where
  "step_W (d, l) sender (W_ledger c) =
     (case step_B l sender c of Inl e \<Rightarrow> Inl e | Inr l' \<Rightarrow> Inr (d, l'))"
| "step_W (d, l) sender (W_approveMilestone ext cb cid idx) =
     (case approve_begin ext l sender cid idx of
        Inl e \<Rightarrow> Inl e
      | Inr l1 \<Rightarrow>
          let w2 = (if paymentToken (contracts l cid) = 0 then (d, l1)
                    else run_locked_W (d, l1) cb)
          in Inr (fst w2, approve_end (snd w2) cid))"
| "step_W (d, l) sender call = step_locked_W (d, l) sender call"

definition exec_W ::
  "dispute_resolution \<times> ledger \<Rightarrow> address \<times> call_W \<Rightarrow> dispute_resolution \<times> ledger" where
  "exec_W w tx = (case step_W w (fst tx) (snd tx) of Inl e \<Rightarrow> w | Inr w' \<Rightarrow> w')"

definition run_W ::
  "dispute_resolution \<times> ledger \<Rightarrow> (address \<times> call_W) list \<Rightarrow> dispute_resolution \<times> ledger"
  where
  "run_W w txs = foldl exec_W w txs"

section \<open>The token registry (SponsorshipNFT)\<close>

text \<open>
  The storage of SponsorshipNFT that its own functions read and write: the counter
  \<open>_tokenIds\<close>, the owner table of ERC721 (the zero address: no such token), the token
  URIs, the two tables between token ids and contract ids, and the role table. Balances
  and the enumeration tables of ERC721Enumerable are left out: no function of these
  sources reads them before it writes.
\<close>

record nft =
  tokenIds :: uint256
  owners :: "uint256 \<Rightarrow> address"
  tokenURIs :: "uint256 \<Rightarrow> string"
  contractIdOf :: "uint256 \<Rightarrow> uint256"
  tokenIdOf :: "uint256 \<Rightarrow> uint256"
  nft_roles :: role_table

definition nft_init :: "address \<Rightarrow> nft" where
  "nft_init deployer =
     \<lparr>tokenIds = 0, owners = (\<lambda>_. 0), tokenURIs = (\<lambda>_. []), contractIdOf = (\<lambda>_. 0),
      tokenIdOf = (\<lambda>_. 0),
      nft_roles = (\<lambda>r a. (r = DEFAULT_ADMIN_ROLE \<or> r = MINTER_ROLE) \<and> a = deployer)\<rparr>"

text \<open>
  \<open>mintSponsorshipNFT\<close>. Modelled from the spec: \<open>Counters.increment\<close> and
  \<open>ERC721._mint\<close> are library code outside these sources. The counter is incremented
  without an overflow check and read back as the next sequential token id; \<open>_mint\<close>
  refuses the zero address and a token id that has an owner. The athlete and the sponsor
  passed to the function only go into the event.
\<close>

definition mintSponsorshipNFT ::
  "nft \<Rightarrow> address \<Rightarrow> address \<Rightarrow> uint256 \<Rightarrow> string \<Rightarrow> error + (nft \<times> uint256)" where
  "mintSponsorshipNFT s sender to cid uri =
     (if \<not> nft_roles s MINTER_ROLE sender
      then Inl (Unauthorized, ''Caller is not a minter'')
      else if tokenIdOf s cid \<noteq> 0
      then Inl (AlreadyExists, ''NFT already minted for this contract'')
      else
        let newTokenId = tokenIds s + 1 in
        if to = 0
        then Inl (InvalidInput, ''ERC721: mint to the zero address'')
        else if owners s newTokenId \<noteq> 0
        then Inl (AlreadyExists, ''ERC721: token already minted'')
        else Inr (s\<lparr>tokenIds := newTokenId,
                    owners := (owners s)(newTokenId := to),
                    tokenURIs := (tokenURIs s)(newTokenId := uri),
                    contractIdOf := (contractIdOf s)(newTokenId := cid),
                    tokenIdOf := (tokenIdOf s)(cid := newTokenId)\<rparr>, newTokenId))"

definition getContractId :: "nft \<Rightarrow> uint256 \<Rightarrow> error + uint256" where
  "getContractId s tokenId =
     (if owners s tokenId = 0
      then Inl (NotFound, ''Token does not exist'')
      else Inr (contractIdOf s tokenId))"

text \<open>
  The transfer of a token the registry inherits from ERC721. Modelled from the spec
  (ownership transfer as deal transfer): the library is outside these sources.
  \<open>approved\<close> says whether the caller holds an approval for the token; the approval
  tables themselves are not modelled.
\<close>

definition transferFrom ::
  "nft \<Rightarrow> address \<Rightarrow> bool \<Rightarrow> address \<Rightarrow> address \<Rightarrow> uint256 \<Rightarrow> error + nft" where
  "transferFrom s sender approved from to tokenId =
     (if owners s tokenId = 0
      then Inl (NotFound, ''ERC721: invalid token ID'')
      else if \<not> (sender = owners s tokenId \<or> approved)
      then Inl (Unauthorized, ''ERC721: caller is not token owner or approved'')
      else if owners s tokenId \<noteq> from
      then Inl (InvalidInput, ''ERC721: transfer from incorrect owner'')
      else if to = 0
      then Inl (InvalidInput, ''ERC721: transfer to the zero address'')
      else Inr (s\<lparr>owners := (owners s)(tokenId := to)\<rparr>))"

definition set_nft_roles :: "nft \<Rightarrow> error + role_table \<Rightarrow> error + nft" where
  "set_nft_roles s r = (case r of Inl e \<Rightarrow> Inl e | Inr t \<Rightarrow> Inr (s\<lparr>nft_roles := t\<rparr>))"

datatype call_N =
  N_mintSponsorshipNFT address uint256 string
  | N_transferFrom bool address address uint256
  | N_grantRole role address
  | N_revokeRole role address
  | N_renounceRole role address

fun step_N :: "nft \<Rightarrow> address \<Rightarrow> call_N \<Rightarrow> error + nft" where
  "step_N s sender (N_mintSponsorshipNFT to cid uri) =
     (case mintSponsorshipNFT s sender to cid uri of
        Inl e \<Rightarrow> Inl e | Inr (s', tokenId) \<Rightarrow> Inr s')"
| "step_N s sender (N_transferFrom approved from to tokenId) =
     transferFrom s sender approved from to tokenId"
| "step_N s sender (N_grantRole r a) = set_nft_roles s (grantRole (nft_roles s) sender r a)"
| "step_N s sender (N_revokeRole r a) = set_nft_roles s (revokeRole (nft_roles s) sender r a)"
| "step_N s sender (N_renounceRole r a) =
     set_nft_roles s (renounceRole (nft_roles s) sender r a)"

definition exec_N :: "nft \<Rightarrow> address \<times> call_N \<Rightarrow> nft" where
  "exec_N s tx = (case step_N s (fst tx) (snd tx) of Inl e \<Rightarrow> s | Inr s' \<Rightarrow> s')"

definition run_N :: "nft \<Rightarrow> (address \<times> call_N) list \<Rightarrow> nft" where
  "run_N s txs = foldl exec_N s txs"

section \<open>Observations on runs\<close>

text \<open>
  The identifiers the creating functions returned during a run, in the order of the
  calls: the contract ids of the ledger, the dispute ids of DisputeResolution and the
  token ids of the registry. A reverted call returns nothing. The identifiers returned
  to a token contract that called back during a successful \<open>approveMilestone\<close> are
  part of the sequence (\<open>created_ids_locked_B\<close>, \<open>dispute_ids_locked_W\<close>); when
  \<open>approveMilestone\<close> reverts, the calls of its callback are reverted with it.
\<close>

fun created_ids_locked_B :: "ledger \<Rightarrow> (address \<times> call_B) list \<Rightarrow> uint256 list" where
  "created_ids_locked_B s [] = []"
| "created_ids_locked_B s ((sender, B_createContract ath spo hash tv sd ed tok arbs) # txs) =
     (case createContract_B s sender ath spo hash tv sd ed tok arbs of
        Inl e \<Rightarrow> created_ids_locked_B s txs
      | Inr (s', cid) \<Rightarrow> cid # created_ids_locked_B s' txs)"
| "created_ids_locked_B s (tx # txs) = created_ids_locked_B (exec_locked_B s tx) txs"

fun created_ids_B :: "ledger \<Rightarrow> (address \<times> call_B) list \<Rightarrow> uint256 list" where
  "created_ids_B s [] = []"
| "created_ids_B s ((sender, B_createContract ath spo hash tv sd ed tok arbs) # txs) =
     (case createContract_B s sender ath spo hash tv sd ed tok arbs of
        Inl e \<Rightarrow> created_ids_B s txs
      | Inr (s', cid) \<Rightarrow> cid # created_ids_B s' txs)"
| "created_ids_B s ((sender, B_approveMilestone ext cb cid idx) # txs) =
     (case approve_begin ext s sender cid idx of
        Inl e \<Rightarrow> created_ids_B s txs
      | Inr s1 \<Rightarrow>
          (if paymentToken (contracts s cid) = 0 then [] else created_ids_locked_B s1 cb)
          @ created_ids_B (exec_B s (sender, B_approveMilestone ext cb cid idx)) txs)"
| "created_ids_B s (tx # txs) = created_ids_B (exec_B s tx) txs"

fun dispute_ids_locked_W ::
  "dispute_resolution \<times> ledger \<Rightarrow> (address \<times> call_W) list \<Rightarrow> uint256 list" where
  "dispute_ids_locked_W w [] = []"
| "dispute_ids_locked_W w ((sender, W_createDispute now cid ev rsn) # txs) =
     (case createDispute (fst w) (snd w) sender now cid ev rsn of
        Inl e \<Rightarrow> dispute_ids_locked_W w txs
      | Inr (d', l', disputeId) \<Rightarrow> disputeId # dispute_ids_locked_W (d', l') txs)"
| "dispute_ids_locked_W w (tx # txs) = dispute_ids_locked_W (exec_locked_W w tx) txs"

fun dispute_ids_W ::
  "dispute_resolution \<times> ledger \<Rightarrow> (address \<times> call_W) list \<Rightarrow> uint256 list" where
  "dispute_ids_W w [] = []"
| "dispute_ids_W w ((sender, W_createDispute now cid ev rsn) # txs) =
     (case createDispute (fst w) (snd w) sender now cid ev rsn of
        Inl e \<Rightarrow> dispute_ids_W w txs
      | Inr (d', l', disputeId) \<Rightarrow> disputeId # dispute_ids_W (d', l') txs)"
| "dispute_ids_W w ((sender, W_approveMilestone ext cb cid idx) # txs) =
     (case approve_begin ext (snd w) sender cid idx of
        Inl e \<Rightarrow> dispute_ids_W w txs
      | Inr l1 \<Rightarrow>
          (if paymentToken (contracts (snd w) cid) = 0 then []
           else dispute_ids_locked_W (fst w, l1) cb)
          @ dispute_ids_W (exec_W w (sender, W_approveMilestone ext cb cid idx)) txs)"
| "dispute_ids_W w (tx # txs) = dispute_ids_W (exec_W w tx) txs"

fun token_ids_N :: "nft \<Rightarrow> (address \<times> call_N) list \<Rightarrow> uint256 list" where
  "token_ids_N s [] = []"
| "token_ids_N s ((sender, N_mintSponsorshipNFT to cid uri) # txs) =
     (case mintSponsorshipNFT s sender to cid uri of
        Inl e \<Rightarrow> token_ids_N s txs
      | Inr (s', tokenId) \<Rightarrow> tokenId # token_ids_N s' txs)"
| "token_ids_N s (tx # txs) = token_ids_N (exec_N s tx) txs"

text \<open>
  All the calls of a run, each with its sender: the transactions and, for an
  \<open>approveMilestone\<close>, the calls of its callback (an \<open>approveMilestone\<close> inside a
  callback reverts, so its own callback never runs).
\<close>

fun calls_of_B :: "(address \<times> call_B) list \<Rightarrow> (address \<times> call_B) list" where
  "calls_of_B [] = []"
| "calls_of_B ((sender, B_approveMilestone ext cb cid idx) # txs) =
     (sender, B_approveMilestone ext cb cid idx) # cb @ calls_of_B txs"
| "calls_of_B (tx # txs) = tx # calls_of_B txs"

fun calls_of_W :: "(address \<times> call_W) list \<Rightarrow> (address \<times> call_W) list" where
  "calls_of_W [] = []"
| "calls_of_W ((sender, W_approveMilestone ext cb cid idx) # txs) =
     (sender, W_approveMilestone ext cb cid idx) # cb @ calls_of_W txs"
| "calls_of_W ((sender, W_ledger (B_approveMilestone ext cb cid idx)) # txs) =
     (sender, W_ledger (B_approveMilestone ext cb cid idx))
     # map (\<lambda>tx. (fst tx, W_ledger (snd tx))) cb @ calls_of_W txs"
| "calls_of_W (tx # txs) = tx # calls_of_W txs"

text \<open>
  Whether a call is an \<open>addMilestones\<close> call on the given contract id; whether it is
  a vote on, or a forced resolution of, the given dispute id.
\<close>

fun is_addMilestones_on :: "uint256 \<Rightarrow> call_B \<Rightarrow> bool" where
  "is_addMilestones_on cid (B_addMilestones cid' ds as dls) = (cid' = cid)"
| "is_addMilestones_on cid _ = False"

fun votes_on :: "uint256 \<Rightarrow> call_W \<Rightarrow> bool" where
  "votes_on i (W_voteOnDispute j favor) = (j = i)"
| "votes_on i (W_forceResolveDispute j favor) = (j = i)"
| "votes_on i _ = False"

section \<open>Concrete runs\<close>

text \<open>
  The accounts of the examples: 1 deploys and administers, 2 is the athlete, 3 the
  sponsor, 4 an agent, 5 to 7 are arbitrators, 9 is the address of DisputeResolution.
  Every external call goes through, and no called contract calls back, where nothing
  else is said.
\<close>

definition ext_ok :: ext_calls where
  "ext_ok = \<lparr>eth_sent = True, token_transferFrom = Some True, token_allowance = Some 0\<rparr>"

text \<open>The role-gated ledger with one contract of value 100 in Draft.\<close>

definition demo_txs_B :: "(address \<times> call_B) list" where
  "demo_txs_B =
     [(1, B_grantRole ATHLETE_ROLE 2), (1, B_grantRole SPONSOR_ROLE 3),
      (1, B_grantRole AGENT_ROLE 4),
      (2, B_createContract 2 3 ''QmDoc'' 100 1000 2000 0 [5])]"

definition demo_B :: ledger where
  "demo_B = run_B (ledger_init 1) demo_txs_B"

text \<open>The same run with a second contract created by the agent.\<close>

definition demo_two_contracts :: "(address \<times> call_B) list" where
  "demo_two_contracts =
     demo_txs_B @ [(4, B_createContract 2 3 ''QmDoc2'' 50 1000 2000 0 [])]"

text \<open>
  The end-to-end scenario of the specification on that contract: milestones of 40 and
  60, activation, then each milestone submitted and approved.
\<close>

definition demo_milestones :: "(address \<times> call_B) list" where
  "demo_milestones = [(2, B_addMilestones 0 [''m0'', ''m1''] [40, 60] [1010, 1020])]"

definition demo_first_payment :: "(address \<times> call_B) list" where
  "demo_first_payment =
     demo_milestones @
     [(3, B_activateContract ext_ok 0), (2, B_submitMilestone 0 0 ''ev0''),
      (3, B_approveMilestone ext_ok [] 0 0)]"

definition demo_second_payment :: "(address \<times> call_B) list" where
  "demo_second_payment =
     demo_first_payment @
     [(2, B_submitMilestone 0 1 ''ev1''), (3, B_approveMilestone ext_ok [] 0 1)]"

text \<open>
  The address-gated ledger with one contract of value 100, one milestone of 100,
  activated, the milestone completed and its payment released.
\<close>

definition demo_txs_A :: "(address \<times> call_A) list" where
  "demo_txs_A =
     [(2, A_createContract 2 3 ''QmDoc'' 100 1000 2000 0 [5]),
      (2, A_addMilestones 0 [''m0''] [100] [1010]),
      (3, A_activateContract 0),
      (2, A_completeMilestone 0 0 ''ev0''),
      (3, A_releaseMilestonePayment ext_ok [] 100 0 0)]"





text \<open>
  DisputeResolution at address 9 beside a role-gated ledger. The ledger's
  \<open>raiseDispute\<close> and \<open>resolveDispute\<close> see DisputeResolution as their caller, so a
  dispute can be created and resolved only on a contract that names address 9 as a party
  and as an arbitrator: here 9 is the athlete and the arbitrator of contract 0, and the
  sponsor raises the dispute. Accounts 5, 6 and 7 are the three registered arbitrators.
\<close>

definition demo_W_setup :: "(address \<times> call_W) list" where
  "demo_W_setup =
     [(1, W_ledger (B_grantRole ATHLETE_ROLE 9)), (1, W_ledger (B_grantRole SPONSOR_ROLE 3)),
      (3, W_ledger (B_createContract 9 3 ''QmDoc'' 100 1000 2000 0 [9])),
      (3, W_ledger (B_addMilestones 0 [''m0''] [100] [1010])),
      (3, W_ledger (B_activateContract ext_ok 0)),
      (1, W_grantRole ARBITRATOR_ROLE 5), (1, W_grantRole ARBITRATOR_ROLE 6),
      (1, W_grantRole ARBITRATOR_ROLE 7),
      (3, W_createDispute 1500 0 ''QmEvidence'' ''late payment'')]"

definition demo_W :: "dispute_resolution \<times> ledger" where
  "demo_W = run_W (dr_init 9 1, ledger_init 1) demo_W_setup"

text \<open>The registry after account 1, its deployer, minted a token for contract 0.\<close>

definition demo_txs_N :: "(address \<times> call_N) list" where
  "demo_txs_N = [(1, N_mintSponsorshipNFT 3 0 ''uri'')]"

definition demo_N :: nft where
  "demo_N = run_N (nft_init 1) demo_txs_N"

text \<open>
  DisputeResolution and the ledger right after deployment, with account 5 registered as
  an arbitrator and nothing else done.
\<close>

definition demo_W_fresh :: "dispute_resolution \<times> ledger" where
  "demo_W_fresh = run_W (dr_init 9 1, ledger_init 1) [(1, W_grantRole ARBITRATOR_ROLE 5)]"

text \<open>The ledger after an agent added one milestone of amount 0 to the unused id 7.\<close>

definition demo_B_phantom :: ledger where
  "demo_B_phantom = run_B demo_B [(4, B_addMilestones 7 [''x''] [0] [0])]"

text \<open>The registry run with a second token, minted for contract 1.\<close>

definition demo_two_tokens :: "(address \<times> call_N) list" where
  "demo_two_tokens = demo_txs_N @ [(1, N_mintSponsorshipNFT 3 1 ''uri1'')]"

section \<open>Predicates of the statements\<close>

text \<open>
  A contract id that \<open>createContract\<close> has returned and whose contract has left Draft;
  a milestone (contract id and index) that exists and carries \<open>paid = true\<close>.
\<close>

definition activated :: "uint256 \<Rightarrow> ledger \<Rightarrow> bool" where
  "activated cid s \<longleftrightarrow> unat cid < unat (contractCount s) \<and> state (contracts s cid) \<noteq> Draft"

definition paid_at :: "ledger \<Rightarrow> uint256 \<Rightarrow> nat \<Rightarrow> bool" where
  "paid_at s cid i \<longleftrightarrow>
     i < length (milestones (contracts s cid)) \<and> paid (milestones (contracts s cid) ! i)"

text \<open>The fields a read of a contract returns, all at their zero value.\<close>

definition unknown_fields :: "SponsorshipContract \<Rightarrow> bool" where
  "unknown_fields c \<longleftrightarrow>
     athlete c = 0 \<and> sponsor c = 0 \<and> totalValue c = 0 \<and> startDate c = 0 \<and> endDate c = 0
     \<and> state c = Draft \<and> paymentToken c = 0"

text \<open>A dispute id that \<open>createDispute\<close> has returned and whose dispute is resolved.\<close>

definition settled :: "uint256 \<Rightarrow> dispute_resolution \<Rightarrow> bool" where
  "settled i d \<longleftrightarrow> unat i < unat (disputeCount d) \<and> resolved (disputes d i)"

section \<open>Unfolding the operations\<close>

lemmas B_defs = createContract_B_def addMilestones_B_def activateContract_B_def
  submitMilestone_B_def rejectMilestone_B_def raiseDispute_B_def
  resolveDispute_B_def updateContract_B_def set_roles_def grantRole_def revokeRole_def
  renounceRole_def

lemmas A_defs = createContract_A_def addMilestones_A_def activateContract_A_def
  completeMilestone_A_def raiseDispute_A_def
  resolveDispute_A_def updateContract_A_def


lemmas approve_defs = approveMilestone_B_def approve_begin_def approve_end_def
section \<open>The concrete runs, evaluated\<close>

lemma demo_B_contract0:
  "contracts demo_B 0 =
     \<lparr>athlete = 2, sponsor = 3, contractIPFSHash = ''QmDoc'', totalValue = 100,
      startDate = 1000, endDate = 2000, state = Draft, paymentToken = 0, milestones = [],
      arbitrators = [5], updateHistory = []\<rparr>"
  by (simp add: demo_B_def demo_txs_B_def run_B_def exec_B_def ledger_init_def B_defs hasRole_def
      zero_contract_def Let_def)

lemma demo_B_count: "contractCount demo_B = 1"
  by (simp add: demo_B_def demo_txs_B_def run_B_def exec_B_def ledger_init_def B_defs hasRole_def
      zero_contract_def Let_def)

lemma demo_B_roles:
  "roles demo_B ATHLETE_ROLE 2" "roles demo_B SPONSOR_ROLE 3" "roles demo_B AGENT_ROLE 4"
  "roles demo_B DEFAULT_ADMIN_ROLE 1"
  by (simp_all add: demo_B_def demo_txs_B_def run_B_def exec_B_def ledger_init_def B_defs hasRole_def
      zero_contract_def Let_def)

section \<open>Runs of the role-gated ledger\<close>

lemma unat_succ: "(x :: 'a::len word) \<noteq> - 1 \<Longrightarrow> unat (x + 1) = Suc (unat x)"
proof -
  assume "x \<noteq> - 1"
  then have "1 + x \<noteq> 0"
    by (simp add: eq_neg_iff_add_eq_0 add.commute)
  then show ?thesis
    by (simp add: unatSuc add.commute)
qed

lemma unat_minus_one_bound: "unat (x :: 'a::len word) < 2 ^ LENGTH('a) - 1 \<Longrightarrow> x \<noteq> - 1"
  by (auto simp: unsigned_minus_1_eq_mask mask_eq_exp_minus_1)

lemma succ_not_zero: "(x :: 'a::len word) \<noteq> - 1 \<Longrightarrow> x + 1 \<noteq> 0"
  by (simp add: eq_neg_iff_add_eq_0)

lemma run_B_Nil [simp]: "run_B s [] = s"
  by (simp add: run_B_def)

lemma run_B_Cons [simp]: "run_B s (tx # txs) = run_B (exec_B s tx) txs"
  by (simp add: run_B_def)

lemma run_B_append: "run_B s (xs @ ys) = run_B (run_B s xs) ys"
  by (simp add: run_B_def)

lemma run_locked_B_Nil [simp]: "run_locked_B s [] = s"
  by (simp add: run_locked_B_def)

lemma run_locked_B_Cons [simp]:
  "run_locked_B s (tx # txs) = run_locked_B (exec_locked_B s tx) txs"
  by (simp add: run_locked_B_def)

text \<open>What \<open>approveMilestone\<close> is made of.\<close>

lemma approveMilestone_B_parts:
  "approveMilestone_B ext cb s sender cid idx = Inr s' \<Longrightarrow>
     \<exists>s1. approve_begin ext s sender cid idx = Inr s1
       \<and> s' = approve_end
                (if paymentToken (contracts s cid) = 0 then s1 else run_locked_B s1 cb) cid"
  by (auto simp: approveMilestone_B_def split: sum.splits)

lemma approve_begin_result:
  "approve_begin ext s sender cid idx = Inr s1 \<Longrightarrow>
     sender = sponsor (contracts s cid) \<and> state (contracts s cid) = Active
     \<and> unat idx < length (milestones (contracts s cid))
     \<and> \<not> paid (milestones (contracts s cid) ! unat idx)
     \<and> s1 = s\<lparr>contracts := (contracts s)(cid := (contracts s cid)\<lparr>milestones :=
               (milestones (contracts s cid))[unat idx :=
                  (milestones (contracts s cid) ! unat idx)\<lparr>paid := True\<rparr>]\<rparr>)\<rparr>"
  by (auto simp: approve_begin_def Let_def split: if_splits)

lemma allCompleted_iff: "allCompleted ms = list_all paid ms"
  by (induction ms) auto

lemma approve_end_fields:
  "contractCount (approve_end s cid) = contractCount s"
  "roles (approve_end s cid) = roles s"
  "c \<noteq> cid \<Longrightarrow> contracts (approve_end s cid) c = contracts s c"
  "milestones (contracts (approve_end s cid) c) = milestones (contracts s c)"
  "state (contracts (approve_end s cid) cid)
     = (if list_all paid (milestones (contracts s cid)) then Completed
        else state (contracts s cid))"
  by (auto simp: approve_end_def Let_def allCompleted_iff)

text \<open>The counter of contracts never goes down.\<close>

lemma step_locked_B_count:
  "step_locked_B s sender call = Inr s' \<Longrightarrow>
     contractCount s' = contractCount s \<or>
     (contractCount s \<noteq> - 1 \<and> contractCount s' = contractCount s + 1)"
  by (cases call) (auto simp: B_defs Let_def split: if_splits sum.splits prod.splits)

lemma exec_locked_B_count:
  "contractCount (exec_locked_B s tx) = contractCount s
   \<or> (contractCount s \<noteq> - 1 \<and> contractCount (exec_locked_B s tx) = contractCount s + 1)"
  using step_locked_B_count[of s "fst tx" "snd tx"]
  by (cases "step_locked_B s (fst tx) (snd tx)") (auto simp: exec_locked_B_def)

lemma exec_locked_B_count_mono:
  "unat (contractCount s) \<le> unat (contractCount (exec_locked_B s tx))"
  using exec_locked_B_count[of s tx] by (auto simp: unat_succ)

lemma run_locked_B_count_mono:
  "unat (contractCount s) \<le> unat (contractCount (run_locked_B s txs))"
proof (induction txs arbitrary: s)
  case (Cons tx txs)
  from exec_locked_B_count_mono[of s tx] Cons[of "exec_locked_B s tx"] show ?case by simp
qed simp

lemma step_B_locked:
  "\<forall>ext cb cid idx. call \<noteq> B_approveMilestone ext cb cid idx \<Longrightarrow>
     step_B s sender call = step_locked_B s sender call"
  by (cases call) simp_all

lemma step_B_count_mono:
  "step_B s sender call = Inr s' \<Longrightarrow> unat (contractCount s) \<le> unat (contractCount s')"
proof (cases "\<exists>ext cb cid idx. call = B_approveMilestone ext cb cid idx")
  case True
  assume st: "step_B s sender call = Inr s'"
  from True obtain ext cb cid idx where c: "call = B_approveMilestone ext cb cid idx" by blast
  from st c approveMilestone_B_parts[of ext cb s sender cid idx s'] obtain s1 where
    b: "approve_begin ext s sender cid idx = Inr s1" and
    e: "s' = approve_end
              (if paymentToken (contracts s cid) = 0 then s1 else run_locked_B s1 cb) cid"
    by auto
  from approve_begin_result[OF b] have "contractCount s1 = contractCount s" by simp
  with run_locked_B_count_mono[of s1 cb] show ?thesis
    unfolding e by (simp add: approve_end_fields)
next
  case False
  assume st: "step_B s sender call = Inr s'"
  from False have "step_B s sender call = step_locked_B s sender call"
    by (simp add: step_B_locked)
  with st step_locked_B_count[of s sender call s'] show ?thesis
    by (auto simp: unat_succ)
qed

lemma exec_B_count_mono: "unat (contractCount s) \<le> unat (contractCount (exec_B s tx))"
  using step_B_count_mono[of s "fst tx" "snd tx"]
  by (cases "step_B s (fst tx) (snd tx)") (auto simp: exec_B_def)

lemma run_B_count_mono: "unat (contractCount s) \<le> unat (contractCount (run_B s txs))"
proof (induction txs arbitrary: s)
  case (Cons tx txs)
  from exec_B_count_mono[of s tx] Cons[of "exec_B s tx"] show ?case by simp
qed simp

text \<open>A created contract that has left Draft never returns to it.\<close>

lemma step_locked_B_nondraft:
  "step_locked_B s sender call = Inr s' \<Longrightarrow> unat cid < unat (contractCount s) \<Longrightarrow>
     state (contracts s cid) \<noteq> Draft \<Longrightarrow> state (contracts s' cid) \<noteq> Draft"
  by (cases call) (auto simp: B_defs Let_def split: if_splits sum.splits prod.splits)

lemma exec_locked_B_activated: "activated cid s \<Longrightarrow> activated cid (exec_locked_B s tx)"
proof (cases "step_locked_B s (fst tx) (snd tx)")
  case (Inl e)
  then show "activated cid s \<Longrightarrow> ?thesis" by (simp add: exec_locked_B_def)
next
  case (Inr s')
  assume a: "activated cid s"
  from Inr have e: "exec_locked_B s tx = s'" by (simp add: exec_locked_B_def)
  from a Inr step_locked_B_nondraft[of s "fst tx" "snd tx" s' cid]
    exec_locked_B_count_mono[of s tx]
  show ?thesis unfolding e[symmetric] activated_def by (auto simp: e)
qed

lemma run_locked_B_activated: "activated cid s \<Longrightarrow> activated cid (run_locked_B s txs)"
  by (induction txs arbitrary: s) (auto intro: exec_locked_B_activated)

lemma approve_begin_activated:
  "approve_begin ext s sender c idx = Inr s1 \<Longrightarrow> activated cid s \<Longrightarrow> activated cid s1"
  using approve_begin_result[of ext s sender c idx s1] by (auto simp: activated_def)

lemma approve_end_activated: "activated cid s \<Longrightarrow> activated cid (approve_end s c)"
  by (cases "cid = c") (auto simp: activated_def approve_end_fields)

lemma exec_B_activated: "activated cid s \<Longrightarrow> activated cid (exec_B s tx)"
proof (cases "\<exists>ext cb c idx. snd tx = B_approveMilestone ext cb c idx")
  case True
  assume a: "activated cid s"
  from True obtain ext cb c idx where c: "snd tx = B_approveMilestone ext cb c idx" by blast
  show ?thesis
  proof (cases "approveMilestone_B ext cb s (fst tx) c idx")
    case (Inl e)
    with a c show ?thesis by (simp add: exec_B_def)
  next
    case (Inr s')
    from approveMilestone_B_parts[OF Inr] obtain s1 where
      b: "approve_begin ext s (fst tx) c idx = Inr s1" and
      e: "s' = approve_end
                (if paymentToken (contracts s c) = 0 then s1 else run_locked_B s1 cb) c"
      by auto
    from approve_begin_activated[OF b a] have "activated cid s1" .
    then have "activated cid s'"
      unfolding e by (auto intro: approve_end_activated run_locked_B_activated)
    with Inr c show ?thesis by (simp add: exec_B_def)
  qed
next
  case False
  assume a: "activated cid s"
  from False have "step_B s (fst tx) (snd tx) = step_locked_B s (fst tx) (snd tx)"
    by (simp add: step_B_locked)
  then have "exec_B s tx = exec_locked_B s tx"
    by (simp add: exec_B_def exec_locked_B_def)
  with exec_locked_B_activated[OF a, of tx] show ?thesis by simp
qed

lemma run_B_activated: "activated cid s \<Longrightarrow> activated cid (run_B s txs)"
  by (induction txs arbitrary: s) (auto intro: exec_B_activated)

lemma activateContract_B_no_milestones:
  "milestones (contracts s cid) = [] \<Longrightarrow> isl (activateContract_B ext s sender cid)"
  by (simp add: activateContract_B_def Let_def)

lemma activateContract_B_succeeds:
  "state (contracts s cid) = Draft \<Longrightarrow> milestones (contracts s cid) \<noteq> [] \<Longrightarrow>
   sender = sponsor (contracts s cid) \<Longrightarrow>
   paymentToken (contracts s cid) = 0
     \<or> (\<exists>al. token_allowance ext = Some al \<and> totalValue (contracts s cid) \<le> al) \<Longrightarrow>
   activateContract_B ext s sender cid
     = Inr (s\<lparr>contracts := (contracts s)(cid := (contracts s cid)\<lparr>state := Active\<rparr>)\<rparr>)"
  by (auto simp add: activateContract_B_def Let_def)

lemma activateContract_B_result:
  "activateContract_B ext s sender cid = Inr s1 \<Longrightarrow>
     state (contracts s cid) = Draft \<and> state (contracts s1 cid) = Active
     \<and> contractCount s1 = contractCount s"
  by (auto simp add: activateContract_B_def Let_def split: if_splits)

lemma activateContract_B_again:
  "activated cid s \<Longrightarrow>
     activateContract_B ext s sender cid =
       (if sender \<noteq> sponsor (contracts s cid)
        then Inl (Unauthorized, ''Only sponsor can activate contract'')
        else Inl (InvalidState, ''Contract not in draft state''))"
  by (simp add: activateContract_B_def activated_def Let_def)

section \<open>Runs of the address-gated ledger\<close>

lemma run_A_Nil [simp]: "run_A s [] = s"
  by (simp add: run_A_def)

lemma run_A_Cons [simp]: "run_A s (tx # txs) = run_A (exec_A s tx) txs"
  by (simp add: run_A_def)

lemma run_locked_A_Nil [simp]: "run_locked_A s [] = s"
  by (simp add: run_locked_A_def)

lemma run_locked_A_Cons [simp]:
  "run_locked_A s (tx # txs) = run_locked_A (exec_locked_A s tx) txs"
  by (simp add: run_locked_A_def)

text \<open>What \<open>releaseMilestonePayment\<close> is made of.\<close>

lemma releaseMilestonePayment_A_parts:
  "releaseMilestonePayment_A ext cb s sender v cid idx = Inr s' \<Longrightarrow>
     sender = sponsor (contracts s cid) \<and> state (contracts s cid) = Active
     \<and> unat idx < length (milestones (contracts s cid))
     \<and> \<not> paid (milestones (contracts s cid) ! unat idx)
     \<and> s' = (run_locked_A s cb)\<lparr>contracts := (contracts (run_locked_A s cb))(cid :=
               (contracts (run_locked_A s cb) cid)\<lparr>milestones :=
                  (milestones (contracts (run_locked_A s cb) cid))[unat idx :=
                     (milestones (contracts (run_locked_A s cb) cid) ! unat idx)
                       \<lparr>paid := True\<rparr>]\<rparr>)\<rparr>"
  by (auto simp: releaseMilestonePayment_A_def Let_def split: if_splits)

lemma step_A_locked:
  "\<forall>ext cb v cid idx. call \<noteq> A_releaseMilestonePayment ext cb v cid idx \<Longrightarrow>
     step_A s sender call = step_locked_A s sender call"
  by (cases call) simp_all

lemma step_locked_A_count:
  "step_locked_A s sender call = Inr s' \<Longrightarrow>
     contractCount s' = contractCount s \<or>
     (contractCount s \<noteq> - 1 \<and> contractCount s' = contractCount s + 1)"
  by (cases call) (auto simp: A_defs Let_def split: if_splits sum.splits prod.splits)

lemma exec_locked_A_count_mono:
  "unat (contractCount s) \<le> unat (contractCount (exec_locked_A s tx))"
  using step_locked_A_count[of s "fst tx" "snd tx"]
  by (cases "step_locked_A s (fst tx) (snd tx)") (auto simp: exec_locked_A_def unat_succ)

lemma step_locked_A_nondraft:
  "step_locked_A s sender call = Inr s' \<Longrightarrow> unat cid < unat (contractCount s) \<Longrightarrow>
     state (contracts s cid) \<noteq> Draft \<Longrightarrow> state (contracts s' cid) \<noteq> Draft"
  by (cases call) (auto simp: A_defs Let_def split: if_splits sum.splits prod.splits)

lemma exec_locked_A_activated: "activated cid s \<Longrightarrow> activated cid (exec_locked_A s tx)"
proof (cases "step_locked_A s (fst tx) (snd tx)")
  case (Inl e)
  then show "activated cid s \<Longrightarrow> ?thesis" by (simp add: exec_locked_A_def)
next
  case (Inr s')
  assume a: "activated cid s"
  from Inr have e: "exec_locked_A s tx = s'" by (simp add: exec_locked_A_def)
  from a Inr step_locked_A_nondraft[of s "fst tx" "snd tx" s' cid]
    exec_locked_A_count_mono[of s tx]
  show ?thesis unfolding e[symmetric] activated_def by (auto simp: e)
qed

lemma run_locked_A_activated: "activated cid s \<Longrightarrow> activated cid (run_locked_A s txs)"
  by (induction txs arbitrary: s) (auto intro: exec_locked_A_activated)

lemma exec_A_activated: "activated cid s \<Longrightarrow> activated cid (exec_A s tx)"
proof (cases "\<exists>ext cb v c idx. snd tx = A_releaseMilestonePayment ext cb v c idx")
  case True
  assume a: "activated cid s"
  from True obtain ext cb v c idx where
    c: "snd tx = A_releaseMilestonePayment ext cb v c idx" by blast
  show ?thesis
  proof (cases "releaseMilestonePayment_A ext cb s (fst tx) v c idx")
    case (Inl e)
    with a c show ?thesis by (simp add: exec_A_def)
  next
    case (Inr s')
    note p = releaseMilestonePayment_A_parts[OF Inr]
    from run_locked_A_activated[OF a, of cb] have "activated cid (run_locked_A s cb)" .
    then have "activated cid s'"
      by (cases "cid = c") (auto simp: activated_def p[THEN conjunct2, THEN conjunct2,
            THEN conjunct2, THEN conjunct2])
    with Inr c show ?thesis by (simp add: exec_A_def)
  qed
next
  case False
  assume a: "activated cid s"
  from False have "step_A s (fst tx) (snd tx) = step_locked_A s (fst tx) (snd tx)"
    by (simp add: step_A_locked)
  then have "exec_A s tx = exec_locked_A s tx"
    by (simp add: exec_A_def exec_locked_A_def)
  with exec_locked_A_activated[OF a, of tx] show ?thesis by simp
qed

lemma run_A_activated: "activated cid s \<Longrightarrow> activated cid (run_A s txs)"
  by (induction txs arbitrary: s) (auto intro: exec_A_activated)

lemma activateContract_A_no_milestones:
  "milestones (contracts s cid) = [] \<Longrightarrow> isl (activateContract_A s sender cid)"
  by (simp add: activateContract_A_def Let_def)

lemma activateContract_A_succeeds:
  "state (contracts s cid) = Draft \<Longrightarrow> milestones (contracts s cid) \<noteq> [] \<Longrightarrow>
   sender = athlete (contracts s cid) \<or> sender = sponsor (contracts s cid) \<Longrightarrow>
   activateContract_A s sender cid
     = Inr (s\<lparr>contracts := (contracts s)(cid := (contracts s cid)\<lparr>state := Active\<rparr>)\<rparr>)"
  by (auto simp add: activateContract_A_def Let_def)

lemma activateContract_A_result:
  "activateContract_A s sender cid = Inr s1 \<Longrightarrow>
     state (contracts s cid) = Draft \<and> state (contracts s1 cid) = Active
     \<and> contractCount s1 = contractCount s"
  by (auto simp add: activateContract_A_def Let_def split: if_splits)

lemma activateContract_A_again:
  "activated cid s \<Longrightarrow>
     activateContract_A s sender cid =
       (if \<not> (sender = athlete (contracts s cid) \<or> sender = sponsor (contracts s cid))
        then Inl (Unauthorized, ''Only athlete or sponsor can activate'')
        else Inl (InvalidState, ''Contract not in draft state''))"
  by (simp add: activateContract_A_def activated_def Let_def)

section \<open>The scenario runs, evaluated\<close>

lemmas demo_eval = exec_B_def B_defs approve_defs hasRole_def Let_def ext_ok_def

lemma demo_milestones_contract0:
  "contracts (run_B demo_B demo_milestones) 0 =
     \<lparr>athlete = 2, sponsor = 3, contractIPFSHash = ''QmDoc'', totalValue = 100,
      startDate = 1000, endDate = 2000, state = Draft, paymentToken = 0,
      milestones =
        [\<lparr>description = ''m0'', amount = 40, deadline = 1010, status = MsPending,
          evidence = [], paid = False\<rparr>,
         \<lparr>description = ''m1'', amount = 60, deadline = 1020, status = MsPending,
          evidence = [], paid = False\<rparr>],
      arbitrators = [5], updateHistory = []\<rparr>"
  by (simp add: demo_milestones_def demo_eval demo_B_contract0 demo_B_roles)

lemma demo_milestones_count: "contractCount (run_B demo_B demo_milestones) = 1"
  by (simp add: demo_milestones_def demo_eval demo_B_contract0 demo_B_roles demo_B_count)

lemma demo_first_payment_contract0:
  "contracts (run_B demo_B demo_first_payment) 0 =
     \<lparr>athlete = 2, sponsor = 3, contractIPFSHash = ''QmDoc'', totalValue = 100,
      startDate = 1000, endDate = 2000, state = Active, paymentToken = 0,
      milestones =
        [\<lparr>description = ''m0'', amount = 40, deadline = 1010, status = MsCompleted,
          evidence = ''ev0'', paid = True\<rparr>,
         \<lparr>description = ''m1'', amount = 60, deadline = 1020, status = MsPending,
          evidence = [], paid = False\<rparr>],
      arbitrators = [5], updateHistory = []\<rparr>"
  unfolding demo_first_payment_def run_B_append
  by (simp add: demo_milestones_contract0 demo_eval)


lemma demo_A_contract0:
  "contracts (run_A ledger_init_A demo_txs_A) 0 =
     \<lparr>athlete = 2, sponsor = 3, contractIPFSHash = ''QmDoc'', totalValue = 100,
      startDate = 1000, endDate = 2000, state = Active, paymentToken = 0,
      milestones =
        [\<lparr>description = ''m0'', amount = 100, deadline = 1010, status = MsCompleted,
          evidence = ''ev0'', paid = True\<rparr>],
      arbitrators = [5], updateHistory = []\<rparr>"
  by (simp add: demo_txs_A_def ledger_init_A_def exec_A_def A_defs releaseMilestonePayment_A_def
      Let_def ext_ok_def zero_contract_def)

lemma demo_first_submitted:
  "step_B (run_B demo_B (demo_milestones @ [(3, B_activateContract ext_ok 0),
       (2, B_submitMilestone 0 0 ''ev0'')])) 3 (B_approveMilestone ext_ok [] 0 0)
     = Inr (run_B demo_B demo_first_payment)"
  unfolding demo_first_payment_def run_B_append
  by (simp add: demo_milestones_contract0 demo_eval)


section \<open>Milestones and payment\<close>

lemma addMilestones_loop_appends:
  "addMilestones_loop ds as dls acc ms = Inr (t, ms') \<Longrightarrow>
     \<exists>new. ms' = ms @ new \<and> (\<forall>m \<in> set new. \<not> paid m \<and> status m = MsPending)
       \<and> map amount new = take (length new) as
       \<and> length new = min (length ds) (min (length as) (length dls))
       \<and> unat t = unat acc + sum_list (map unat (take (length new) as))"
proof (induction ds as dls acc ms rule: addMilestones_loop.induct)
  case (1 d ds a as dl dls acc ms)
  let ?m = "\<lparr>description = d, amount = a, deadline = dl, status = MsPending,
             evidence = [], paid = False\<rparr>"
  from "1.prems" have no: "\<not> 2 ^ 256 \<le> unat acc + unat a"
    by (auto split: if_splits)
  with "1.prems" have rec: "addMilestones_loop ds as dls (acc + a) (ms @ [?m]) = Inr (t, ms')"
    by simp
  from "1.IH"[OF no rec] obtain new where
    n: "ms' = (ms @ [?m]) @ new"
       "\<forall>m \<in> set new. \<not> paid m \<and> status m = MsPending"
       "map amount new = take (length new) as"
       "length new = min (length ds) (min (length as) (length dls))"
       "unat t = unat (acc + a) + sum_list (map unat (take (length new) as))" by blast
  have ua: "unat (acc + a) = unat acc + unat a"
    using no by (simp add: unat_add_lem[THEN iffD1])
  show ?case
    by (rule exI[of _ "?m # new"]) (use n ua in simp)
qed auto

lemma addMilestones_B_result:
  assumes "addMilestones_B s sender cid ds as dls = Inr s'"
  shows "\<exists>new. s' = s\<lparr>contracts := (contracts s)(cid :=
                   (contracts s cid)\<lparr>milestones := milestones (contracts s cid) @ new\<rparr>)\<rparr>
           \<and> (\<forall>m \<in> set new. \<not> paid m \<and> status m = MsPending)
           \<and> map amount new = as
           \<and> sum_list (map unat as) = unat (totalValue (contracts s cid))"
proof -
  from assms obtain t ms' where
    len: "length ds = length as" "length as = length dls" and
    loop: "addMilestones_loop ds as dls 0 (milestones (contracts s cid)) = Inr (t, ms')" and
    tot: "t = totalValue (contracts s cid)" and
    s': "s' = s\<lparr>contracts := (contracts s)(cid := (contracts s cid)\<lparr>milestones := ms'\<rparr>)\<rparr>"
    by (auto simp: addMilestones_B_def Let_def split: if_splits sum.splits prod.splits)
  from addMilestones_loop_appends[OF loop] len tot s' show ?thesis
    by auto
qed

lemma addMilestones_A_result:
  assumes "addMilestones_A s sender cid ds as dls = Inr s'"
  shows "\<exists>new. s' = s\<lparr>contracts := (contracts s)(cid :=
                   (contracts s cid)\<lparr>milestones := milestones (contracts s cid) @ new\<rparr>)\<rparr>
           \<and> (\<forall>m \<in> set new. \<not> paid m \<and> status m = MsPending)
           \<and> map amount new = as
           \<and> sum_list (map unat as) = unat (totalValue (contracts s cid))"
proof -
  from assms obtain t ms' where
    len: "length ds = length as" "length as = length dls" and
    loop: "addMilestones_loop ds as dls 0 (milestones (contracts s cid)) = Inr (t, ms')" and
    tot: "t = totalValue (contracts s cid)" and
    s': "s' = s\<lparr>contracts := (contracts s)(cid := (contracts s cid)\<lparr>milestones := ms'\<rparr>)\<rparr>"
    by (auto simp: addMilestones_A_def Let_def split: if_splits sum.splits prod.splits)
  from addMilestones_loop_appends[OF loop] len tot s' show ?thesis
    by auto
qed

text \<open>No call made while the lock is held writes a paid flag.\<close>

lemma step_locked_B_paid:
  "step_locked_B s sender call = Inr s' \<Longrightarrow> paid_at s' c i = paid_at s c i"
proof (cases call)
  case (B_addMilestones cid ds as dls)
  assume "step_locked_B s sender call = Inr s'"
  with B_addMilestones addMilestones_B_result[of s sender cid ds as dls s'] show ?thesis
    by (auto simp: paid_at_def nth_append split: if_splits)
qed (auto simp: B_defs Let_def paid_at_def nth_list_update
        split: if_splits sum.splits prod.splits)

lemma exec_locked_B_paid: "paid_at (exec_locked_B s tx) c i = paid_at s c i"
  using step_locked_B_paid[of s "fst tx" "snd tx"]
  by (cases "step_locked_B s (fst tx) (snd tx)") (auto simp: exec_locked_B_def)

lemma run_locked_B_paid: "paid_at (run_locked_B s txs) c i = paid_at s c i"
  by (induction txs arbitrary: s) (simp_all add: exec_locked_B_paid)

lemma approve_end_paid: "paid_at (approve_end s cid) c i = paid_at s c i"
  by (simp add: paid_at_def approve_end_fields)

lemma approve_begin_paid:
  "approve_begin ext s sender cid idx = Inr s1 \<Longrightarrow>
     \<not> paid_at s cid (unat idx)
     \<and> paid_at s1 c i = (paid_at s c i \<or> (c = cid \<and> i = unat idx))"
  using approve_begin_result[of ext s sender cid idx s1]
  by (auto simp: paid_at_def nth_list_update)

lemma approveMilestone_B_paid_iff:
  assumes "approveMilestone_B ext cb s sender cid idx = Inr s'"
  shows "\<not> paid_at s cid (unat idx)"
    and "paid_at s' c i = (paid_at s c i \<or> (c = cid \<and> i = unat idx))"
proof -
  from approveMilestone_B_parts[OF assms] obtain s1 where
    b: "approve_begin ext s sender cid idx = Inr s1" and
    e: "s' = approve_end
              (if paymentToken (contracts s cid) = 0 then s1 else run_locked_B s1 cb) cid"
    by auto
  from approve_begin_paid[OF b] show "\<not> paid_at s cid (unat idx)" by simp
  from approve_begin_paid[OF b, of c i]
  show "paid_at s' c i = (paid_at s c i \<or> (c = cid \<and> i = unat idx))"
    unfolding e by (simp add: approve_end_paid run_locked_B_paid)
qed

lemma step_B_paid_latch:
  "step_B s sender call = Inr s' \<Longrightarrow> paid_at s c i \<Longrightarrow> paid_at s' c i"
proof (cases "\<exists>ext cb cid idx. call = B_approveMilestone ext cb cid idx")
  case True
  assume "step_B s sender call = Inr s'" "paid_at s c i"
  with True approveMilestone_B_paid_iff(2)[of _ _ s sender _ _ s' c i] show ?thesis
    by auto
next
  case False
  assume "step_B s sender call = Inr s'" "paid_at s c i"
  with False step_locked_B_paid[of s sender call s' c i] show ?thesis
    by (simp add: step_B_locked)
qed

lemma step_B_paid_origin:
  "step_B s sender call = Inr s' \<Longrightarrow> \<not> paid_at s c i \<Longrightarrow> paid_at s' c i \<Longrightarrow>
     \<exists>ext cb idx. call = B_approveMilestone ext cb c idx \<and> unat idx = i"
proof (cases "\<exists>ext cb cid idx. call = B_approveMilestone ext cb cid idx")
  case True
  assume "step_B s sender call = Inr s'" "\<not> paid_at s c i" "paid_at s' c i"
  with True approveMilestone_B_paid_iff(2)[of _ _ s sender _ _ s' c i] show ?thesis
    by auto
next
  case False
  assume "step_B s sender call = Inr s'" "\<not> paid_at s c i" "paid_at s' c i"
  with False step_locked_B_paid[of s sender call s' c i] show ?thesis
    by (simp add: step_B_locked)
qed

lemma step_locked_A_paid:
  "step_locked_A s sender call = Inr s' \<Longrightarrow> paid_at s' c i = paid_at s c i"
proof (cases call)
  case (A_addMilestones cid ds as dls)
  assume "step_locked_A s sender call = Inr s'"
  with A_addMilestones addMilestones_A_result[of s sender cid ds as dls s'] show ?thesis
    by (auto simp: paid_at_def nth_append split: if_splits)
qed (auto simp: A_defs Let_def paid_at_def nth_list_update
        split: if_splits sum.splits prod.splits)

lemma exec_locked_A_paid: "paid_at (exec_locked_A s tx) c i = paid_at s c i"
  using step_locked_A_paid[of s "fst tx" "snd tx"]
  by (cases "step_locked_A s (fst tx) (snd tx)") (auto simp: exec_locked_A_def)

lemma run_locked_A_paid: "paid_at (run_locked_A s txs) c i = paid_at s c i"
  by (induction txs arbitrary: s) (simp_all add: exec_locked_A_paid)

text \<open>No call shortens a milestone array.\<close>

lemma step_locked_A_length:
  "step_locked_A s sender call = Inr s' \<Longrightarrow>
     length (milestones (contracts s c)) \<le> length (milestones (contracts s' c))"
proof (cases call)
  case (A_addMilestones cid ds as dls)
  assume "step_locked_A s sender call = Inr s'"
  with A_addMilestones addMilestones_A_result[of s sender cid ds as dls s'] show ?thesis
    by auto
qed (auto simp: A_defs Let_def split: if_splits sum.splits prod.splits)

lemma run_locked_A_length:
  "length (milestones (contracts s c)) \<le> length (milestones (contracts (run_locked_A s txs) c))"
proof (induction txs arbitrary: s)
  case (Cons tx txs)
  have "length (milestones (contracts s c))
          \<le> length (milestones (contracts (exec_locked_A s tx) c))"
    using step_locked_A_length[of s "fst tx" "snd tx" _ c]
    by (cases "step_locked_A s (fst tx) (snd tx)") (auto simp: exec_locked_A_def)
  with Cons[of "exec_locked_A s tx"] show ?case by simp
qed simp

lemma releaseMilestonePayment_A_paid_iff:
  assumes "releaseMilestonePayment_A ext cb s sender v cid idx = Inr s'"
  shows "\<not> paid_at s cid (unat idx)"
    and "paid_at s' c i = (paid_at s c i \<or> (c = cid \<and> i = unat idx))"
proof -
  note p = releaseMilestonePayment_A_parts[OF assms]
  let ?s2 = "run_locked_A s cb"
  from p show "\<not> paid_at s cid (unat idx)" by (simp add: paid_at_def)
  from p run_locked_A_length[of s cid cb]
  have len: "unat idx < length (milestones (contracts ?s2 cid))" by simp
  from p have s': "s' = ?s2\<lparr>contracts := (contracts ?s2)(cid :=
               (contracts ?s2 cid)\<lparr>milestones :=
                  (milestones (contracts ?s2 cid))[unat idx :=
                     (milestones (contracts ?s2 cid) ! unat idx)\<lparr>paid := True\<rparr>]\<rparr>)\<rparr>"
    by simp
  have "paid_at s' c i = (paid_at ?s2 c i \<or> (c = cid \<and> i = unat idx))"
    unfolding s' using len by (auto simp: paid_at_def nth_list_update)
  then show "paid_at s' c i = (paid_at s c i \<or> (c = cid \<and> i = unat idx))"
    by (simp add: run_locked_A_paid)
qed

lemma step_A_paid_latch:
  "step_A s sender call = Inr s' \<Longrightarrow> paid_at s c i \<Longrightarrow> paid_at s' c i"
proof (cases "\<exists>ext cb v cid idx. call = A_releaseMilestonePayment ext cb v cid idx")
  case True
  assume "step_A s sender call = Inr s'" "paid_at s c i"
  with True releaseMilestonePayment_A_paid_iff(2)[of _ _ s sender _ _ _ s' c i] show ?thesis
    by auto
next
  case False
  assume "step_A s sender call = Inr s'" "paid_at s c i"
  with False step_locked_A_paid[of s sender call s' c i] show ?thesis
    by (simp add: step_A_locked)
qed

lemma step_A_paid_origin:
  "step_A s sender call = Inr s' \<Longrightarrow> \<not> paid_at s c i \<Longrightarrow> paid_at s' c i \<Longrightarrow>
     \<exists>ext cb v idx. call = A_releaseMilestonePayment ext cb v c idx \<and> unat idx = i"
proof (cases "\<exists>ext cb v cid idx. call = A_releaseMilestonePayment ext cb v cid idx")
  case True
  assume "step_A s sender call = Inr s'" "\<not> paid_at s c i" "paid_at s' c i"
  with True releaseMilestonePayment_A_paid_iff(2)[of _ _ s sender _ _ _ s' c i] show ?thesis
    by auto
next
  case False
  assume "step_A s sender call = Inr s'" "\<not> paid_at s c i" "paid_at s' c i"
  with False step_locked_A_paid[of s sender call s' c i] show ?thesis
    by (simp add: step_A_locked)
qed

lemma run_B_paid_latch: "paid_at s c i \<Longrightarrow> paid_at (run_B s txs) c i"
proof (induction txs arbitrary: s)
  case (Cons tx txs)
  have "paid_at (exec_B s tx) c i"
    using Cons.prems step_B_paid_latch[of s "fst tx" "snd tx" _ c i]
    by (cases "step_B s (fst tx) (snd tx)") (auto simp: exec_B_def)
  then show ?case using Cons.IH by simp
qed simp

lemma run_A_paid_latch: "paid_at s c i \<Longrightarrow> paid_at (run_A s txs) c i"
proof (induction txs arbitrary: s)
  case (Cons tx txs)
  have "paid_at (exec_A s tx) c i"
    using Cons.prems step_A_paid_latch[of s "fst tx" "snd tx" _ c i]
    by (cases "step_A s (fst tx) (snd tx)") (auto simp: exec_A_def)
  then show ?case using Cons.IH by simp
qed simp

lemma approveMilestone_B_paid:
  "paid_at s cid (unat idx) \<Longrightarrow>
     approveMilestone_B ext cb s sender cid idx =
       (if sender \<noteq> sponsor (contracts s cid)
        then Inl (Unauthorized, ''Only sponsor can approve milestone'')
        else if state (contracts s cid) \<noteq> Active
        then Inl (InvalidState, ''Contract not active'')
        else if status (milestones (contracts s cid) ! unat idx) \<noteq> MsCompleted
        then Inl (InvalidState, ''Milestone not completed'')
        else Inl (InvalidState, ''Payment already released''))"
  by (simp add: approveMilestone_B_def approve_begin_def Let_def paid_at_def)

lemma releaseMilestonePayment_A_paid:
  "paid_at s cid (unat idx) \<Longrightarrow>
     releaseMilestonePayment_A ext cb s sender v cid idx =
       (if sender \<noteq> sponsor (contracts s cid)
        then Inl (Unauthorized, ''Only sponsor can release payment'')
        else if state (contracts s cid) \<noteq> Active
        then Inl (InvalidState, ''Contract not active'')
        else if status (milestones (contracts s cid) ! unat idx) \<noteq> MsCompleted
        then Inl (InvalidState, ''Milestone not completed'')
        else Inl (InvalidState, ''Payment already released''))"
  by (simp add: releaseMilestonePayment_A_def Let_def paid_at_def)





lemma addMilestones_loop_succeeds:
  "length ds = length as \<Longrightarrow> length as = length dls \<Longrightarrow>
   unat acc + sum_list (map unat as) < 2 ^ 256 \<Longrightarrow>
   \<exists>t ms'. addMilestones_loop ds as dls acc ms = Inr (t, ms')"
proof (induction ds as dls acc ms rule: addMilestones_loop.induct)
  case (1 d ds a as dl dls acc ms)
  from "1.prems"(3) have no: "\<not> 2 ^ 256 \<le> unat acc + unat a" by simp
  then have ua: "unat (acc + a) = unat acc + unat a"
    by (simp add: unat_add_lem[THEN iffD1])
  from "1.prems" ua have "unat (acc + a) + sum_list (map unat as) < 2 ^ 256" by simp
  with "1.IH"[OF no] "1.prems" no show ?case by simp
qed auto

section \<open>Runs of the token registry\<close>

lemmas N_defs = mintSponsorshipNFT_def transferFrom_def set_nft_roles_def grantRole_def
  revokeRole_def renounceRole_def

lemma run_N_Nil [simp]: "run_N s [] = s"
  by (simp add: run_N_def)

lemma run_N_Cons [simp]: "run_N s (tx # txs) = run_N (exec_N s tx) txs"
  by (simp add: run_N_def)

lemma mint_result:
  "mintSponsorshipNFT s sender to cid uri = Inr (s', t) \<Longrightarrow>
     t = tokenIds s + 1 \<and> tokenIds s' = t \<and> tokenIdOf s cid = 0 \<and> to \<noteq> 0
     \<and> owners s t = 0 \<and> nft_roles s MINTER_ROLE sender
     \<and> owners s' = (owners s)(t := to) \<and> contractIdOf s' = (contractIdOf s)(t := cid)
     \<and> tokenIdOf s' = (tokenIdOf s)(cid := t) \<and> nft_roles s' = nft_roles s"
  by (auto simp: mintSponsorshipNFT_def Let_def split: if_splits)

lemma exec_N_mint:
  "mintSponsorshipNFT s sender to cid uri = Inr (s', t) \<Longrightarrow>
     exec_N s (sender, N_mintSponsorshipNFT to cid uri) = s'"
  "mintSponsorshipNFT s sender to cid uri = Inl e \<Longrightarrow>
     exec_N s (sender, N_mintSponsorshipNFT to cid uri) = s"
  by (simp_all add: exec_N_def)

lemma exec_N_other:
  "\<forall>to cid uri. snd tx \<noteq> N_mintSponsorshipNFT to cid uri \<Longrightarrow>
     tokenIds (exec_N s tx) = tokenIds s \<and> tokenIdOf (exec_N s tx) = tokenIdOf s
     \<and> contractIdOf (exec_N s tx) = contractIdOf s
     \<and> (\<forall>t. (owners (exec_N s tx) t = 0) = (owners s t = 0))"
  by (cases "snd tx")
     (auto simp: exec_N_def N_defs Let_def split: if_splits sum.splits)

text \<open>Every token that has an owner is not token 0 and is the token of its contract id.\<close>

lemma exec_N_inv:
  assumes inv: "\<forall>t. owners s t \<noteq> 0 \<longrightarrow> t \<noteq> 0 \<and> tokenIdOf s (contractIdOf s t) = t"
    and nowrap: "tokenIds s \<noteq> - 1"
  shows "\<forall>t. owners (exec_N s tx) t \<noteq> 0
           \<longrightarrow> t \<noteq> 0 \<and> tokenIdOf (exec_N s tx) (contractIdOf (exec_N s tx) t) = t"
proof (cases "\<exists>to cid uri. snd tx = N_mintSponsorshipNFT to cid uri")
  case False
  then show ?thesis using exec_N_other[of tx s] inv by auto
next
  case True
  then obtain to cid uri where tx: "tx = (fst tx, N_mintSponsorshipNFT to cid uri)"
    by (metis prod.collapse)
  show ?thesis
  proof (cases "mintSponsorshipNFT s (fst tx) to cid uri")
    case (Inl e)
    then have "exec_N s tx = s" using exec_N_mint(2)[of s "fst tx" to cid uri e] tx by simp
    then show ?thesis using inv by simp
  next
    case (Inr r)
    obtain s' t where r: "r = (s', t)" by (cases r)
    from Inr r have e: "exec_N s tx = s'"
      using exec_N_mint(1)[of s "fst tx" to cid uri s' t] tx by simp
    note m = mint_result[OF Inr[unfolded r]]
    have t0: "t \<noteq> 0"
      using m nowrap succ_not_zero[of "tokenIds s"] by simp
    show ?thesis unfolding e
    proof (intro allI impI)
      fix u assume o: "owners s' u \<noteq> 0"
      show "u \<noteq> 0 \<and> tokenIdOf s' (contractIdOf s' u) = u"
      proof (cases "u = t")
        case True
        then show ?thesis using m t0 by simp
      next
        case False
        with o m have ou: "owners s u \<noteq> 0" by simp
        with inv have u: "u \<noteq> 0" "tokenIdOf s (contractIdOf s u) = u" by auto
        with m have "contractIdOf s u \<noteq> cid" by auto
        with u m False show ?thesis by simp
      qed
    qed
  qed
qed

lemma exec_N_counter: "unat (tokenIds (exec_N s tx)) \<le> Suc (unat (tokenIds s))"
proof (cases "\<exists>to cid uri. snd tx = N_mintSponsorshipNFT to cid uri")
  case False
  then show ?thesis using exec_N_other[of tx s] by auto
next
  case True
  then obtain to cid uri where tx: "tx = (fst tx, N_mintSponsorshipNFT to cid uri)"
    by (metis prod.collapse)
  show ?thesis
  proof (cases "mintSponsorshipNFT s (fst tx) to cid uri")
    case (Inl e)
    then have "exec_N s tx = s" using exec_N_mint(2)[of s "fst tx" to cid uri e] tx by simp
    then show ?thesis by simp
  next
    case (Inr r)
    obtain s' t where r: "r = (s', t)" by (cases r)
    from Inr r have e: "exec_N s tx = s'"
      using exec_N_mint(1)[of s "fst tx" to cid uri s' t] tx by simp
    note m = mint_result[OF Inr[unfolded r]]
    have "unat (tokenIds s + 1) \<le> Suc (unat (tokenIds s))"
      by (cases "tokenIds s = - 1") (simp_all add: unat_succ)
    then show ?thesis unfolding e using m by simp
  qed
qed

lemma run_N_inv:
  "\<forall>t. owners s t \<noteq> 0 \<longrightarrow> t \<noteq> 0 \<and> tokenIdOf s (contractIdOf s t) = t \<Longrightarrow>
   unat (tokenIds s) + length txs < 2 ^ 256 - 1 \<Longrightarrow>
   \<forall>t. owners (run_N s txs) t \<noteq> 0
     \<longrightarrow> t \<noteq> 0 \<and> tokenIdOf (run_N s txs) (contractIdOf (run_N s txs) t) = t"
proof (induction txs arbitrary: s)
  case Nil
  then show ?case by simp
next
  case (Cons tx txs)
  from Cons.prems(2) have "unat (tokenIds s) < 2 ^ 256 - 1" by simp
  then have nw: "tokenIds s \<noteq> - 1"
    using unat_minus_one_bound[of "tokenIds s"] by simp
  have i: "\<forall>t. owners (exec_N s tx) t \<noteq> 0
           \<longrightarrow> t \<noteq> 0 \<and> tokenIdOf (exec_N s tx) (contractIdOf (exec_N s tx) t) = t"
    by (rule exec_N_inv[OF Cons.prems(1) nw])
  have c: "unat (tokenIds (exec_N s tx)) + length txs < 2 ^ 256 - 1"
    using exec_N_counter[of s tx] Cons.prems(2) by simp
  show ?case using Cons.IH[OF i c] by simp
qed

lemma exec_N_step:
  "(tokenIds (exec_N s tx) = tokenIds s \<and> (\<forall>t. (owners (exec_N s tx) t = 0) = (owners s t = 0)))
   \<or> (tokenIds (exec_N s tx) = tokenIds s + 1
       \<and> (\<forall>t. owners (exec_N s tx) t \<noteq> 0 \<longrightarrow> owners s t \<noteq> 0 \<or> t = tokenIds s + 1))"
proof (cases "\<exists>to cid uri. snd tx = N_mintSponsorshipNFT to cid uri")
  case False
  then show ?thesis using exec_N_other[of tx s] by auto
next
  case True
  then obtain to cid uri where tx: "tx = (fst tx, N_mintSponsorshipNFT to cid uri)"
    by (metis prod.collapse)
  show ?thesis
  proof (cases "mintSponsorshipNFT s (fst tx) to cid uri")
    case (Inl e)
    then have "exec_N s tx = s" using exec_N_mint(2)[of s "fst tx" to cid uri e] tx by simp
    then show ?thesis by simp
  next
    case (Inr r)
    obtain s' t where r: "r = (s', t)" by (cases r)
    from Inr r have e: "exec_N s tx = s'"
      using exec_N_mint(1)[of s "fst tx" to cid uri s' t] tx by simp
    note m = mint_result[OF Inr[unfolded r]]
    show ?thesis unfolding e using m by auto
  qed
qed

lemma token_ids_N_Cons:
  "token_ids_N s (tx # txs) =
     (if tokenIds (exec_N s tx) = tokenIds s then [] else [tokenIds s + 1])
     @ token_ids_N (exec_N s tx) txs"
proof -
  obtain sender call where tx: "tx = (sender, call)" by (cases tx)
  show ?thesis unfolding tx
    by (cases call)
       (auto simp: exec_N_def N_defs Let_def split: if_splits sum.splits prod.splits)
qed

lemma token_ids_N_seq:
  "unat (tokenIds s) + length txs < 2 ^ 256 \<Longrightarrow>
     map unat (token_ids_N s txs)
       = [Suc (unat (tokenIds s)) ..< Suc (unat (tokenIds s)) + length (token_ids_N s txs)]
     \<and> unat (tokenIds (run_N s txs)) = unat (tokenIds s) + length (token_ids_N s txs)
     \<and> length (token_ids_N s txs) \<le> length txs"
proof (induction txs arbitrary: s)
  case Nil
  then show ?case by simp
next
  case (Cons tx txs)
  let ?s1 = "exec_N s tx"
  from Cons.prems have "unat (tokenIds s) < 2 ^ 256 - 1" by simp
  then have nw: "tokenIds s \<noteq> - 1" using unat_minus_one_bound[of "tokenIds s"] by simp
  show ?case
  proof (cases "tokenIds ?s1 = tokenIds s")
    case True
    then have ids: "token_ids_N s (tx # txs) = token_ids_N ?s1 txs"
      by (simp only: token_ids_N_Cons) simp
    from True Cons.prems have "unat (tokenIds ?s1) + length txs < 2 ^ 256" by simp
    from Cons.IH[OF this] True show ?thesis unfolding ids by simp
  next
    case False
    with exec_N_step[of s tx] have inc: "tokenIds ?s1 = tokenIds s + 1" by blast
    from False have ids: "token_ids_N s (tx # txs) = (tokenIds s + 1) # token_ids_N ?s1 txs"
      by (simp only: token_ids_N_Cons) simp
    from inc nw have u: "unat (tokenIds ?s1) = Suc (unat (tokenIds s))"
      by (simp add: unat_succ)
    with Cons.prems have "unat (tokenIds ?s1) + length txs < 2 ^ 256" by simp
    from Cons.IH[OF this] u inc show ?thesis unfolding ids
      by (simp add: upt_conv_Cons del: upt_Suc)
  qed
qed

lemma owners_from_token_ids:
  "owners (run_N s txs) t \<noteq> 0 \<Longrightarrow> owners s t \<noteq> 0 \<or> t \<in> set (token_ids_N s txs)"
proof (induction txs arbitrary: s)
  case Nil
  then show ?case by simp
next
  case (Cons tx txs)
  let ?s1 = "exec_N s tx"
  from Cons.prems have "owners (run_N ?s1 txs) t \<noteq> 0" by simp
  from Cons.IH[OF this] have d: "owners ?s1 t \<noteq> 0 \<or> t \<in> set (token_ids_N ?s1 txs)" .
  show ?case
  proof (cases "tokenIds ?s1 = tokenIds s")
    case True
    then have ids: "token_ids_N s (tx # txs) = token_ids_N ?s1 txs"
      by (simp only: token_ids_N_Cons) simp
    from True exec_N_step[of s tx] have "(owners ?s1 t = 0) = (owners s t = 0)" by auto
    with d show ?thesis unfolding ids by auto
  next
    case False
    then have ids: "token_ids_N s (tx # txs) = (tokenIds s + 1) # token_ids_N ?s1 txs"
      by (simp only: token_ids_N_Cons) simp
    from False exec_N_step[of s tx]
    have "owners ?s1 t \<noteq> 0 \<longrightarrow> owners s t \<noteq> 0 \<or> t = tokenIds s + 1" by blast
    with d show ?thesis unfolding ids by auto
  qed
qed

section \<open>Runs of the two contracts together; sequences of identifiers\<close>

lemmas W_defs = createDispute_def resolveDispute_def voteOnDispute_def
  forceResolveDispute_def set_dr_roles_def getContractDetails_B_def

lemma run_W_Nil [simp]: "run_W w [] = w"
  by (simp add: run_W_def)

lemma run_W_Cons [simp]: "run_W w (tx # txs) = run_W (exec_W w tx) txs"
  by (simp add: run_W_def)

lemma run_locked_W_Nil [simp]: "run_locked_W w [] = w"
  by (simp add: run_locked_W_def)

lemma run_locked_W_Cons [simp]:
  "run_locked_W w (tx # txs) = run_locked_W (exec_locked_W w tx) txs"
  by (simp add: run_locked_W_def)

lemma upt_glue: "a \<le> b \<Longrightarrow> b \<le> c \<Longrightarrow> [a ..< b] @ [b ..< c] = [a ..< c]"
  using upt_add_eq_append[of a b "c - b"] by simp

text \<open>The contract ids of a run are the values the counter went through.\<close>

lemma created_ids_locked_B_Cons:
  "created_ids_locked_B s (tx # txs) =
     (if contractCount (exec_locked_B s tx) = contractCount s then [] else [contractCount s])
     @ created_ids_locked_B (exec_locked_B s tx) txs"
proof -
  obtain sender call where tx: "tx = (sender, call)" by (cases tx)
  show ?thesis unfolding tx
    by (cases call)
       (auto simp: exec_locked_B_def B_defs Let_def split: if_splits sum.splits prod.splits)
qed

lemma created_ids_locked_B_seq:
  "map unat (created_ids_locked_B s txs)
     = [unat (contractCount s) ..< unat (contractCount (run_locked_B s txs))]"
proof (induction txs arbitrary: s)
  case Nil
  then show ?case by simp
next
  case (Cons tx txs)
  let ?s1 = "exec_locked_B s tx"
  note ih = Cons.IH[of ?s1]
  note mono = run_locked_B_count_mono[of ?s1 txs]
  from exec_locked_B_count[of s tx] show ?case
  proof
    assume same: "contractCount ?s1 = contractCount s"
    then have "created_ids_locked_B s (tx # txs) = created_ids_locked_B ?s1 txs"
      by (simp only: created_ids_locked_B_Cons) simp
    with ih same show ?thesis by simp
  next
    assume inc: "contractCount s \<noteq> - 1 \<and> contractCount ?s1 = contractCount s + 1"
    then have ids: "created_ids_locked_B s (tx # txs)
        = contractCount s # created_ids_locked_B ?s1 txs"
      by (simp only: created_ids_locked_B_Cons) simp
    from inc have u: "unat (contractCount ?s1) = Suc (unat (contractCount s))"
      by (simp add: unat_succ)
    show ?thesis unfolding ids using ih u mono
      by (simp add: upt_conv_Cons del: upt_Suc)
  qed
qed

lemma created_ids_B_Cons:
  "created_ids_B s (tx # txs) = created_ids_B s [tx] @ created_ids_B (exec_B s tx) txs"
proof -
  obtain sender call where tx: "tx = (sender, call)" by (cases tx)
  show ?thesis unfolding tx
    by (cases call)
       (auto simp: exec_B_def exec_locked_B_def approveMilestone_B_def
          split: if_splits sum.splits prod.splits)
qed

lemma created_ids_B_head:
  "map unat (created_ids_B s [tx])
     = [unat (contractCount s) ..< unat (contractCount (exec_B s tx))]"
proof (cases "\<exists>ext cb cid idx. snd tx = B_approveMilestone ext cb cid idx")
  case True
  then obtain sender ext cb cid idx where
    tx: "tx = (sender, B_approveMilestone ext cb cid idx)" by (cases tx) auto
  show ?thesis
  proof (cases "approve_begin ext s sender cid idx")
    case (Inl e)
    then show ?thesis by (simp add: tx exec_B_def approveMilestone_B_def)
  next
    case (Inr s1)
    from approve_begin_result[OF Inr] have c1: "contractCount s1 = contractCount s" by simp
    from Inr have e: "exec_B s tx = approve_end
        (if paymentToken (contracts s cid) = 0 then s1 else run_locked_B s1 cb) cid"
      by (simp add: tx exec_B_def approveMilestone_B_def)
    show ?thesis
      unfolding e using Inr c1 created_ids_locked_B_seq[of s1 cb]
      by (simp add: tx approve_end_fields)
  qed
next
  case False
  obtain sender call where tx: "tx = (sender, call)" by (cases tx)
  from False have l: "exec_B s tx = exec_locked_B s tx"
    by (simp add: exec_B_def exec_locked_B_def step_B_locked)
  from False have "created_ids_B s [tx] = created_ids_locked_B s [tx]"
    unfolding tx
    by (cases call) (auto simp: exec_B_def exec_locked_B_def split: sum.splits prod.splits)
  with created_ids_locked_B_seq[of s "[tx]"] l show ?thesis by simp
qed

lemma created_ids_B_seq:
  "map unat (created_ids_B s txs)
     = [unat (contractCount s) ..< unat (contractCount (run_B s txs))]"
proof (induction txs arbitrary: s)
  case Nil
  then show ?case by simp
next
  case (Cons tx txs)
  have "map unat (created_ids_B s (tx # txs))
      = map unat (created_ids_B s [tx]) @ map unat (created_ids_B (exec_B s tx) txs)"
    by (simp only: created_ids_B_Cons[of s tx txs] map_append)
  also have "\<dots> = [unat (contractCount s) ..< unat (contractCount (exec_B s tx))]
      @ [unat (contractCount (exec_B s tx)) ..< unat (contractCount (run_B (exec_B s tx) txs))]"
    by (simp only: created_ids_B_head Cons.IH)
  also have "\<dots> = [unat (contractCount s) ..< unat (contractCount (run_B (exec_B s tx) txs))]"
    by (rule upt_glue) (simp_all add: exec_B_count_mono run_B_count_mono)
  finally show ?case by simp
qed

text \<open>
  Lifting a property of the storage of DisputeResolution from the calls made under the
  lock to every transaction: a call to the ledger leaves that storage alone, and an
  \<open>approveMilestone\<close> changes it through its callback only.
\<close>

lemma run_locked_W_lift:
  assumes step: "\<And>w tx. Q (snd tx) \<Longrightarrow> P (fst w) \<Longrightarrow> P (fst (exec_locked_W w tx))"
  shows "\<forall>tx \<in> set txs. Q (snd tx) \<Longrightarrow> P (fst w) \<Longrightarrow> P (fst (run_locked_W w txs))"
proof (induction txs arbitrary: w)
  case (Cons tx txs)
  from Cons.prems step[of tx w] have "P (fst (exec_locked_W w tx))" by simp
  with Cons.IH[of "exec_locked_W w tx"] Cons.prems(1) show ?case by simp
qed simp

lemma exec_W_ledger: "fst (exec_W w (sender, W_ledger c)) = fst w"
  by (cases w) (auto simp: exec_W_def split: sum.splits)

lemma exec_W_approve:
  "fst (exec_W w (sender, W_approveMilestone ext cb cid idx)) = fst w
   \<or> (\<exists>l1. fst (exec_W w (sender, W_approveMilestone ext cb cid idx))
            = fst (run_locked_W (fst w, l1) cb))"
  by (cases w) (auto simp: exec_W_def Let_def split: sum.splits)

lemma exec_W_locked:
  "\<forall>c. snd tx \<noteq> W_ledger c \<Longrightarrow> \<forall>ext cb cid idx. snd tx \<noteq> W_approveMilestone ext cb cid idx \<Longrightarrow>
     exec_W w tx = exec_locked_W w tx"
  by (cases w; cases tx; cases "snd tx") (auto simp: exec_W_def exec_locked_W_def)

lemma exec_W_lift:
  assumes step: "\<And>w tx. Q (snd tx) \<Longrightarrow> P (fst w) \<Longrightarrow> P (fst (exec_locked_W w tx))"
  shows "\<forall>c \<in> set (calls_of_W [tx]). Q (snd c) \<Longrightarrow> P (fst w) \<Longrightarrow> P (fst (exec_W w tx))"
proof -
  assume q: "\<forall>c \<in> set (calls_of_W [tx]). Q (snd c)" and p: "P (fst w)"
  obtain sender call where tx: "tx = (sender, call)" by (cases tx)
  consider (ledger) c where "call = W_ledger c"
    | (approve) ext cb cid idx where "call = W_approveMilestone ext cb cid idx"
    | (other) "\<forall>c. call \<noteq> W_ledger c"
        "\<forall>ext cb cid idx. call \<noteq> W_approveMilestone ext cb cid idx"
    by blast
  then show ?thesis
  proof cases
    case ledger
    with p show ?thesis by (simp add: tx exec_W_ledger)
  next
    case approve
    from q have qc: "\<forall>c \<in> set cb. Q (snd c)" by (simp add: tx approve)
    from exec_W_approve[of w sender ext cb cid idx] show ?thesis
    proof
      assume "fst (exec_W w (sender, W_approveMilestone ext cb cid idx)) = fst w"
      with p show ?thesis by (simp add: tx approve)
    next
      assume "\<exists>l1. fst (exec_W w (sender, W_approveMilestone ext cb cid idx))
            = fst (run_locked_W (fst w, l1) cb)"
      then obtain l1 where e: "fst (exec_W w (sender, W_approveMilestone ext cb cid idx))
            = fst (run_locked_W (fst w, l1) cb)" by blast
      from run_locked_W_lift[of Q P cb "(fst w, l1)", OF step] qc p
      show ?thesis by (simp add: tx approve e)
    qed
  next
    case other
    then have e: "exec_W w tx = exec_locked_W w tx"
      by (simp add: tx exec_W_locked)
    from other have "calls_of_W [tx] = [tx]"
      unfolding tx by (cases call) (auto elim: calls_of_W.elims)
    with q have "Q (snd tx)" by simp
    with step[of tx w] p show ?thesis by (simp add: e)
  qed
qed

lemma calls_of_W_Cons:
  "set (calls_of_W (tx # txs)) = set (calls_of_W [tx]) \<union> set (calls_of_W txs)"
  by (induction "tx # txs" rule: calls_of_W.induct) auto

lemma run_W_lift:
  assumes step: "\<And>w tx. Q (snd tx) \<Longrightarrow> P (fst w) \<Longrightarrow> P (fst (exec_locked_W w tx))"
  shows "\<forall>c \<in> set (calls_of_W txs). Q (snd c) \<Longrightarrow> P (fst w) \<Longrightarrow> P (fst (run_W w txs))"
proof (induction txs arbitrary: w)
  case (Cons tx txs)
  from Cons.prems(1) have "(\<forall>c \<in> set (calls_of_W [tx]). Q (snd c))
      \<and> (\<forall>c \<in> set (calls_of_W txs). Q (snd c))"
    by (simp only: calls_of_W_Cons[of tx txs] ball_Un)
  then have q: "\<forall>c \<in> set (calls_of_W [tx]). Q (snd c)"
    "\<forall>c \<in> set (calls_of_W txs). Q (snd c)"
    by blast+
  from exec_W_lift[of Q P tx w, OF step] q(1) Cons.prems(2)
  have "P (fst (exec_W w tx))" by simp
  with Cons.IH[of "exec_W w tx"] q(2) show ?case by simp
qed simp

text \<open>The dispute ids of a run are the values the counter went through.\<close>

lemma step_locked_W_count:
  "step_locked_W w sender call = Inr w' \<Longrightarrow>
     disputeCount (fst w') = disputeCount (fst w) \<or>
     (disputeCount (fst w) \<noteq> - 1 \<and> disputeCount (fst w') = disputeCount (fst w) + 1)"
  by (cases w; cases call)
     (auto simp: W_defs raiseDispute_B_def resolveDispute_B_def grantRole_def revokeRole_def
        renounceRole_def Let_def split: if_splits sum.splits prod.splits)

lemma exec_locked_W_count:
  "disputeCount (fst (exec_locked_W w tx)) = disputeCount (fst w)
   \<or> (disputeCount (fst w) \<noteq> - 1
       \<and> disputeCount (fst (exec_locked_W w tx)) = disputeCount (fst w) + 1)"
  using step_locked_W_count[of w "fst tx" "snd tx"]
  by (cases "step_locked_W w (fst tx) (snd tx)") (auto simp: exec_locked_W_def)

lemma exec_locked_W_count_mono:
  "n \<le> unat (disputeCount (fst w)) \<Longrightarrow> n \<le> unat (disputeCount (fst (exec_locked_W w tx)))"
  using exec_locked_W_count[of w tx] by (auto simp: unat_succ)

lemma run_locked_W_count_mono:
  "unat (disputeCount (fst w)) \<le> unat (disputeCount (fst (run_locked_W w txs)))"
  using run_locked_W_lift[of "\<lambda>_. True" "\<lambda>d. unat (disputeCount (fst w)) \<le> unat (disputeCount d)"
      txs w] exec_locked_W_count_mono
  by simp

lemma exec_W_count_mono:
  "unat (disputeCount (fst w)) \<le> unat (disputeCount (fst (exec_W w tx)))"
  using exec_W_lift[of "\<lambda>_. True" "\<lambda>d. unat (disputeCount (fst w)) \<le> unat (disputeCount d)"
      tx w] exec_locked_W_count_mono
  by simp

lemma run_W_count_mono:
  "unat (disputeCount (fst w)) \<le> unat (disputeCount (fst (run_W w txs)))"
  using run_W_lift[of "\<lambda>_. True" "\<lambda>d. unat (disputeCount (fst w)) \<le> unat (disputeCount d)"
      txs w] exec_locked_W_count_mono
  by simp

lemma dispute_ids_locked_W_Cons:
  "dispute_ids_locked_W w (tx # txs) =
     (if disputeCount (fst (exec_locked_W w tx)) = disputeCount (fst w) then []
      else [disputeCount (fst w)])
     @ dispute_ids_locked_W (exec_locked_W w tx) txs"
proof -
  obtain sender call where tx: "tx = (sender, call)" by (cases tx)
  obtain d l where w: "w = (d, l)" by (cases w)
  show ?thesis
  proof (cases "\<exists>now cid ev rsn. call = W_createDispute now cid ev rsn")
    case True
    then obtain now cid ev rsn where c: "call = W_createDispute now cid ev rsn" by blast
    show ?thesis unfolding tx w c
      by (auto simp: exec_locked_W_def createDispute_def getContractDetails_B_def Let_def
          split: if_splits sum.splits prod.splits)
  next
    case False
    have same: "disputeCount (fst (exec_locked_W w tx)) = disputeCount (fst w)"
      using False unfolding tx w
      by (cases call)
         (auto simp: exec_locked_W_def W_defs resolveDispute_B_def set_dr_roles_def grantRole_def
            revokeRole_def renounceRole_def Let_def split: if_splits sum.splits prod.splits)
    have "dispute_ids_locked_W w (tx # txs) = dispute_ids_locked_W (exec_locked_W w tx) txs"
      using False unfolding tx w by (cases call) auto
    with same show ?thesis by simp
  qed
qed

lemma dispute_ids_locked_W_seq:
  "map unat (dispute_ids_locked_W w txs)
     = [unat (disputeCount (fst w)) ..< unat (disputeCount (fst (run_locked_W w txs)))]"
proof (induction txs arbitrary: w)
  case Nil
  then show ?case by simp
next
  case (Cons tx txs)
  let ?w1 = "exec_locked_W w tx"
  note ih = Cons.IH[of ?w1]
  note mono = run_locked_W_count_mono[of ?w1 txs]
  from exec_locked_W_count[of w tx] show ?case
  proof
    assume same: "disputeCount (fst ?w1) = disputeCount (fst w)"
    then have "dispute_ids_locked_W w (tx # txs) = dispute_ids_locked_W ?w1 txs"
      by (simp only: dispute_ids_locked_W_Cons) simp
    with ih same show ?thesis by simp
  next
    assume inc: "disputeCount (fst w) \<noteq> - 1
       \<and> disputeCount (fst ?w1) = disputeCount (fst w) + 1"
    then have ids: "dispute_ids_locked_W w (tx # txs)
        = disputeCount (fst w) # dispute_ids_locked_W ?w1 txs"
      by (simp only: dispute_ids_locked_W_Cons) simp
    from inc have u: "unat (disputeCount (fst ?w1)) = Suc (unat (disputeCount (fst w)))"
      by (simp add: unat_succ)
    show ?thesis unfolding ids using ih u mono
      by (simp add: upt_conv_Cons del: upt_Suc)
  qed
qed

lemma dispute_ids_W_Cons:
  "dispute_ids_W w (tx # txs) = dispute_ids_W w [tx] @ dispute_ids_W (exec_W w tx) txs"
proof -
  obtain sender call where tx: "tx = (sender, call)" by (cases tx)
  obtain d l where w: "w = (d, l)" by (cases w)
  show ?thesis unfolding tx w
    by (cases call)
       (auto simp: exec_W_def exec_locked_W_def Let_def split: if_splits sum.splits prod.splits)
qed

lemma dispute_ids_W_head:
  "map unat (dispute_ids_W w [tx])
     = [unat (disputeCount (fst w)) ..< unat (disputeCount (fst (exec_W w tx)))]"
proof -
  obtain sender call where tx: "tx = (sender, call)" by (cases tx)
  obtain d l where w: "w = (d, l)" by (cases w)
  consider (ledger) c where "call = W_ledger c"
    | (approve) ext cb cid idx where "call = W_approveMilestone ext cb cid idx"
    | (other) "\<forall>c. call \<noteq> W_ledger c"
        "\<forall>ext cb cid idx. call \<noteq> W_approveMilestone ext cb cid idx"
    by blast
  then show ?thesis
  proof cases
    case ledger
    then show ?thesis by (simp add: tx exec_W_ledger)
  next
    case approve
    show ?thesis
    proof (cases "approve_begin ext l sender cid idx")
      case (Inl e)
      then show ?thesis by (simp add: tx w approve exec_W_def)
    next
      case (Inr l1)
      then have e: "fst (exec_W w tx)
          = fst (if paymentToken (contracts l cid) = 0 then (d, l1)
                 else run_locked_W (d, l1) cb)"
        by (simp add: tx w approve exec_W_def Let_def)
      show ?thesis
        unfolding e using Inr dispute_ids_locked_W_seq[of "(d, l1)" cb]
        by (simp add: tx w approve)
    qed
  next
    case other
    then have l: "exec_W w tx = exec_locked_W w tx"
      by (simp add: tx exec_W_locked)
    from other have "dispute_ids_W w [tx] = dispute_ids_locked_W w [tx]"
      unfolding tx w
      by (cases call) (auto simp: exec_W_def exec_locked_W_def split: sum.splits prod.splits)
    with dispute_ids_locked_W_seq[of w "[tx]"] l show ?thesis by simp
  qed
qed

lemma dispute_ids_W_seq:
  "map unat (dispute_ids_W w txs)
     = [unat (disputeCount (fst w)) ..< unat (disputeCount (fst (run_W w txs)))]"
proof (induction txs arbitrary: w)
  case Nil
  then show ?case by simp
next
  case (Cons tx txs)
  have "map unat (dispute_ids_W w (tx # txs))
      = map unat (dispute_ids_W w [tx]) @ map unat (dispute_ids_W (exec_W w tx) txs)"
    by (simp only: dispute_ids_W_Cons[of w tx txs] map_append)
  also have "\<dots> = [unat (disputeCount (fst w)) ..< unat (disputeCount (fst (exec_W w tx)))]
      @ [unat (disputeCount (fst (exec_W w tx)))
           ..< unat (disputeCount (fst (run_W (exec_W w tx) txs)))]"
    by (simp only: dispute_ids_W_head Cons.IH)
  also have "\<dots> = [unat (disputeCount (fst w))
           ..< unat (disputeCount (fst (run_W (exec_W w tx) txs)))]"
    by (rule upt_glue) (simp_all add: exec_W_count_mono run_W_count_mono)
  finally show ?case by simp
qed

lemma upt_of_map: "map f xs = [0 ..< n] \<Longrightarrow> map f xs = [0 ..< length xs]"
proof -
  assume a: "map f xs = [0 ..< n]"
  then have "length (map f xs) = length [0 ..< n]" by (rule arg_cong)
  then have "length xs = n" by simp
  with a show ?thesis by simp
qed

lemma distinct_of_unat: "distinct (map unat xs) \<Longrightarrow> distinct xs"
  by (simp add: distinct_map)
lemma demo_N_eval:
  "owners demo_N 1 = 3" "contractIdOf demo_N 1 = 0" "nft_roles demo_N MINTER_ROLE 1"
  "token_ids_N (nft_init 1) demo_txs_N = [1]" "length demo_txs_N = 1"
  by (simp_all add: demo_N_def demo_txs_N_def nft_init_def exec_N_def N_defs Let_def)


lemmas W_eval = exec_W_def exec_B_def B_defs W_defs hasRole_def Let_def ext_ok_def

lemma demo_W_ledger0:
  "contracts (snd demo_W) 0 =
     \<lparr>athlete = 9, sponsor = 3, contractIPFSHash = ''QmDoc'', totalValue = 100,
      startDate = 1000, endDate = 2000, state = Disputed, paymentToken = 0,
      milestones = [\<lparr>description = ''m0'', amount = 100, deadline = 1010,
         status = MsPending, evidence = [], paid = False\<rparr>],
      arbitrators = [9], updateHistory = []\<rparr>"
  by (simp add: demo_W_def demo_W_setup_def dr_init_def ledger_init_def zero_contract_def
      zero_dispute_def W_eval)

lemma demo_W_dispute0:
  "disputes (fst demo_W) 0 =
     zero_dispute\<lparr>initiator := 3, evidenceIPFSHash := ''QmEvidence'',
       reason := ''late payment'', timestamp := 1500\<rparr>"
  by (simp add: demo_W_def demo_W_setup_def dr_init_def ledger_init_def zero_contract_def
      zero_dispute_def W_eval)

lemma demo_W_misc:
  "dr_self (fst demo_W) = 9" "disputeCount (fst demo_W) = 1"
  "dr_roles (fst demo_W) ARBITRATOR_ROLE 5" "dr_roles (fst demo_W) ARBITRATOR_ROLE 6"
  "dr_roles (fst demo_W) ARBITRATOR_ROLE 7"
  "dispute_ids_W (dr_init 9 1, ledger_init 1) demo_W_setup = [0]"
  by (simp_all add: demo_W_def demo_W_setup_def dr_init_def ledger_init_def zero_contract_def
      zero_dispute_def W_eval)

lemma demo_W_fresh_eval:
  "dr_self (fst demo_W_fresh) = 9" "disputeCount (fst demo_W_fresh) = 0"
  "dr_roles (fst demo_W_fresh) ARBITRATOR_ROLE 5"
  "disputes (fst demo_W_fresh) 7 = zero_dispute"
  "contracts (snd demo_W_fresh) 0 = zero_contract"
  "roles (snd demo_W_fresh) ARBITRATOR_ROLE 9 = False"
  by (simp_all add: demo_W_fresh_def dr_init_def ledger_init_def W_eval)

section \<open>Voting\<close>

lemma voteOnDispute_majority:
  "voteOnDispute d l sender i f = Inr (d', l') \<Longrightarrow>
     resolved (disputes d' i) \<longleftrightarrow>
       (of_nat (length (votedArbitrators (disputes d' i))) :: uint256) div 2
           < athleteVotes (disputes d' i)
       \<or> (of_nat (length (votedArbitrators (disputes d' i))) :: uint256) div 2
           < sponsorVotes (disputes d' i)"
  by (auto simp: voteOnDispute_def resolveDispute_def Let_def
      split: if_splits sum.splits)

lemma voteOnDispute_fresh:
  assumes "votedArbitrators (disputes d i) = []" "athleteVotes (disputes d i) = 0"
    "sponsorVotes (disputes d i) = 0" "\<not> resolved (disputes d i)"
    "dr_roles d ARBITRATOR_ROLE sender"
  shows "voteOnDispute d l sender i f =
     (case resolveDispute_B l (dr_self d) (contractId (disputes d i)) f of
        Inl e \<Rightarrow> Inl e
      | Inr l' \<Rightarrow>
          Inr (d\<lparr>disputes := (disputes d)(i := (disputes d i)
                 \<lparr>arbitratorVotes := (arbitratorVotes (disputes d i))(sender := f),
                  votedArbitrators := [sender],
                  athleteVotes := (if f then 1 else 0),
                  sponsorVotes := (if f then 0 else 1),
                  resolved := True, athleteFavor := f\<rparr>)\<rparr>, l'))"
  using assms
  by (cases f) (auto simp: voteOnDispute_def resolveDispute_def Let_def split: sum.splits)

lemma voteOnDispute_resolved:
  "resolved (disputes d i) \<Longrightarrow>
     voteOnDispute d l sender i f =
       (if dr_roles d ARBITRATOR_ROLE sender
        then Inl (InvalidState, ''Dispute already resolved'')
        else Inl (Unauthorized, ''Only arbitrator can vote''))"
  by (simp add: voteOnDispute_def Let_def)

lemma resolveDispute_B_errors:
  "resolveDispute_B l sender cid f = Inl e \<Longrightarrow> fst e = Unauthorized \<or> fst e = InvalidState"
  by (auto simp: resolveDispute_B_def Let_def split: if_splits)

lemma voteOnDispute_count:
  "voteOnDispute d l sender i f = Inr (d', l') \<Longrightarrow> disputeCount d' = disputeCount d"
  by (auto simp: voteOnDispute_def resolveDispute_def Let_def split: if_splits sum.splits)

lemma createDispute_result:
  assumes "createDispute d l sender now cid ev rsn = Inr (d', l', i)"
  shows "i = disputeCount d"
    and "unat (disputeCount d) < unat (disputeCount d')"
    and "disputes d' (disputeCount d) = (disputes d (disputeCount d))
         \<lparr>contractId := cid, initiator := sender, evidenceIPFSHash := ev, reason := rsn,
          timestamp := now, resolved := False\<rparr>"
  using assms
  by (auto simp: createDispute_def getContractDetails_B_def Let_def unat_succ
      split: if_splits sum.splits prod.splits)

text \<open>
  A dispute id that was not created, and that no vote and no forced resolution has
  named, has the zero record.
\<close>

lemma exec_locked_W_zero_dispute:
  assumes "\<not> votes_on i (snd tx)"
    and "unat (disputeCount (fst w)) \<le> unat i \<longrightarrow> disputes (fst w) i = zero_dispute"
  shows "unat (disputeCount (fst (exec_locked_W w tx))) \<le> unat i
           \<longrightarrow> disputes (fst (exec_locked_W w tx)) i = zero_dispute"
proof
  assume b: "unat (disputeCount (fst (exec_locked_W w tx))) \<le> unat i"
  with exec_locked_W_count_mono[of "unat (disputeCount (fst w))" w tx]
  have "unat (disputeCount (fst w)) \<le> unat i" by simp
  with assms(2) have z: "disputes (fst w) i = zero_dispute" by simp
  obtain sender call where tx: "tx = (sender, call)" by (cases tx)
  obtain d l where w: "w = (d, l)" by (cases w)
  from z assms(1) b show "disputes (fst (exec_locked_W w tx)) i = zero_dispute"
    unfolding tx w
    by (cases call)
       (auto simp: exec_locked_W_def W_defs resolveDispute_B_def raiseDispute_B_def
          grantRole_def revokeRole_def renounceRole_def Let_def unat_succ
          split: if_splits sum.splits prod.splits)
qed

lemma run_W_zero_dispute:
  "disputes (fst w) i = zero_dispute \<Longrightarrow>
   \<forall>c \<in> set (calls_of_W txs). \<not> votes_on i (snd c) \<Longrightarrow>
   unat (disputeCount (fst (run_W w txs))) \<le> unat i \<Longrightarrow>
   disputes (fst (run_W w txs)) i = zero_dispute"
  using run_W_lift[of "\<lambda>c. \<not> votes_on i c"
      "\<lambda>d. unat (disputeCount d) \<le> unat i \<longrightarrow> disputes d i = zero_dispute" txs w]
    exec_locked_W_zero_dispute[of i]
  by simp

text \<open>A created dispute that is resolved stays resolved.\<close>

lemma exec_locked_W_settled:
  "settled i (fst w) \<Longrightarrow> settled i (fst (exec_locked_W w tx))"
proof -
  obtain sender call where tx: "tx = (sender, call)" by (cases tx)
  obtain d l where w: "w = (d, l)" by (cases w)
  show "settled i (fst w) \<Longrightarrow> ?thesis"
    unfolding tx w settled_def
    by (cases call)
       (auto simp: exec_locked_W_def W_defs resolveDispute_B_def raiseDispute_B_def
          grantRole_def revokeRole_def renounceRole_def Let_def unat_succ
          split: if_splits sum.splits prod.splits)
qed

lemma run_W_settled: "settled i (fst w) \<Longrightarrow> settled i (fst (run_W w txs))"
  using run_W_lift[of "\<lambda>c. True" "settled i" txs w] exec_locked_W_settled[of i]
  by simp
section \<open>Contract ids that were not created\<close>

lemma calls_of_B_Cons:
  "set (calls_of_B (tx # txs)) = set (calls_of_B [tx]) \<union> set (calls_of_B txs)"
  by (induction "tx # txs" rule: calls_of_B.induct) auto

lemma calls_of_B_locked:
  "\<forall>ext cb cid idx. snd tx \<noteq> B_approveMilestone ext cb cid idx \<Longrightarrow> calls_of_B [tx] = [tx]"
  by (cases tx; cases "snd tx") auto

lemma step_locked_B_unknown:
  "step_locked_B s sender call = Inr s' \<Longrightarrow> sender \<noteq> 0 \<Longrightarrow>
   unknown_fields (contracts s cid) \<Longrightarrow>
   unat (contractCount s') \<le> unat cid \<Longrightarrow> unknown_fields (contracts s' cid)"
  by (cases call)
     (auto simp: B_defs Let_def unknown_fields_def unat_succ
        split: if_splits sum.splits prod.splits)

lemma run_locked_B_unknown:
  "unknown_fields (contracts s cid) \<Longrightarrow> \<forall>tx \<in> set txs. fst tx \<noteq> 0 \<Longrightarrow>
   unat (contractCount (run_locked_B s txs)) \<le> unat cid \<Longrightarrow>
   unknown_fields (contracts (run_locked_B s txs) cid)"
proof (induction txs arbitrary: s)
  case Nil
  then show ?case by simp
next
  case (Cons tx txs)
  have b: "unat (contractCount (exec_locked_B s tx)) \<le> unat cid"
    using run_locked_B_count_mono[of "exec_locked_B s tx" txs] Cons.prems(3) by simp
  have "unknown_fields (contracts (exec_locked_B s tx) cid)"
  proof (cases "step_locked_B s (fst tx) (snd tx)")
    case (Inl e)
    then show ?thesis using Cons.prems(1) by (simp add: exec_locked_B_def)
  next
    case (Inr s')
    then have e: "exec_locked_B s tx = s'" by (simp add: exec_locked_B_def)
    from step_locked_B_unknown[OF Inr _ Cons.prems(1)] b Cons.prems(2) show ?thesis
      unfolding e by simp
  qed
  with Cons show ?case by simp
qed

lemma exec_B_unknown:
  assumes u: "unknown_fields (contracts s cid)"
    and q: "\<forall>c \<in> set (calls_of_B [tx]). fst c \<noteq> 0"
    and b: "unat (contractCount (exec_B s tx)) \<le> unat cid"
  shows "unknown_fields (contracts (exec_B s tx) cid)"
proof (cases "\<exists>ext cb c idx. snd tx = B_approveMilestone ext cb c idx")
  case True
  then obtain sender ext cb c idx where
    tx: "tx = (sender, B_approveMilestone ext cb c idx)" by (cases tx) auto
  from q have q: "sender \<noteq> 0" "\<forall>c \<in> set cb. fst c \<noteq> 0" by (simp_all add: tx)
  show ?thesis
  proof (cases "approve_begin ext s sender c idx")
    case (Inl e)
    with u show ?thesis by (simp add: tx exec_B_def approveMilestone_B_def)
  next
    case (Inr s1)
    let ?s2 = "if paymentToken (contracts s c) = 0 then s1 else run_locked_B s1 cb"
    from Inr have e: "exec_B s tx = approve_end ?s2 c"
      by (simp add: tx exec_B_def approveMilestone_B_def)
    note r = approve_begin_result[OF Inr]
    from r q(1) u have ne: "c \<noteq> cid" by (auto simp: unknown_fields_def)
    with r u have u1: "unknown_fields (contracts s1 cid)" by simp
    from b have b2: "unat (contractCount ?s2) \<le> unat cid"
      unfolding e by (simp only: approve_end_fields)
    have "unknown_fields (contracts ?s2 cid)"
    proof (cases "paymentToken (contracts s c) = 0")
      case True
      with u1 show ?thesis by simp
    next
      case False
      with b2 run_locked_B_unknown[OF u1 q(2)] show ?thesis by simp
    qed
    with ne show ?thesis unfolding e by (simp only: approve_end_fields)
  qed
next
  case False
  then have l: "exec_B s tx = exec_locked_B s tx"
    by (simp add: exec_B_def exec_locked_B_def step_B_locked)
  from False q have "fst tx \<noteq> 0" by (simp add: calls_of_B_locked)
  with run_locked_B_unknown[OF u, of "[tx]"] b show ?thesis by (simp add: l)
qed

lemma run_B_unknown:
  "unknown_fields (contracts s cid) \<Longrightarrow> \<forall>c \<in> set (calls_of_B txs). fst c \<noteq> 0 \<Longrightarrow>
   unat (contractCount (run_B s txs)) \<le> unat cid \<Longrightarrow>
   unknown_fields (contracts (run_B s txs) cid)"
proof (induction txs arbitrary: s)
  case Nil
  then show ?case by simp
next
  case (Cons tx txs)
  from Cons.prems(2) have "(\<forall>c \<in> set (calls_of_B [tx]). fst c \<noteq> 0)
      \<and> (\<forall>c \<in> set (calls_of_B txs). fst c \<noteq> 0)"
    by (simp only: calls_of_B_Cons[of tx txs] ball_Un)
  then have q: "\<forall>c \<in> set (calls_of_B [tx]). fst c \<noteq> 0"
    "\<forall>c \<in> set (calls_of_B txs). fst c \<noteq> 0"
    by blast+
  have b: "unat (contractCount (exec_B s tx)) \<le> unat cid"
    using run_B_count_mono[of "exec_B s tx" txs] Cons.prems(3) by simp
  from exec_B_unknown[OF Cons.prems(1) q(1) b] Cons.IH[of "exec_B s tx"] q(2) Cons.prems(3)
  show ?case by simp
qed

lemma step_locked_B_no_milestones:
  "step_locked_B s sender call = Inr s' \<Longrightarrow> milestones (contracts s cid) = [] \<Longrightarrow>
   \<not> is_addMilestones_on cid call \<Longrightarrow> milestones (contracts s' cid) = []"
  by (cases call)
     (auto simp: B_defs Let_def split: if_splits sum.splits prod.splits)

lemma run_locked_B_no_milestones:
  "milestones (contracts s cid) = [] \<Longrightarrow> \<forall>tx \<in> set txs. \<not> is_addMilestones_on cid (snd tx) \<Longrightarrow>
   milestones (contracts (run_locked_B s txs) cid) = []"
proof (induction txs arbitrary: s)
  case Nil
  then show ?case by simp
next
  case (Cons tx txs)
  have "milestones (contracts (exec_locked_B s tx) cid) = []"
  proof (cases "step_locked_B s (fst tx) (snd tx)")
    case (Inl e)
    then show ?thesis using Cons.prems(1) by (simp add: exec_locked_B_def)
  next
    case (Inr s')
    then have e: "exec_locked_B s tx = s'" by (simp add: exec_locked_B_def)
    from step_locked_B_no_milestones[OF Inr Cons.prems(1)] Cons.prems(2) show ?thesis
      unfolding e by simp
  qed
  with Cons show ?case by simp
qed

lemma exec_B_no_milestones:
  assumes m: "milestones (contracts s cid) = []"
    and q: "\<forall>c \<in> set (calls_of_B [tx]). \<not> is_addMilestones_on cid (snd c)"
  shows "milestones (contracts (exec_B s tx) cid) = []"
proof (cases "\<exists>ext cb c idx. snd tx = B_approveMilestone ext cb c idx")
  case True
  then obtain sender ext cb c idx where
    tx: "tx = (sender, B_approveMilestone ext cb c idx)" by (cases tx) auto
  from q have q: "\<forall>c \<in> set cb. \<not> is_addMilestones_on cid (snd c)" by (simp add: tx)
  show ?thesis
  proof (cases "approve_begin ext s sender c idx")
    case (Inl e)
    with m show ?thesis by (simp add: tx exec_B_def approveMilestone_B_def)
  next
    case (Inr s1)
    let ?s2 = "if paymentToken (contracts s c) = 0 then s1 else run_locked_B s1 cb"
    from Inr have e: "exec_B s tx = approve_end ?s2 c"
      by (simp add: tx exec_B_def approveMilestone_B_def)
    note r = approve_begin_result[OF Inr]
    from r m have ne: "c \<noteq> cid" by auto
    with r m have m1: "milestones (contracts s1 cid) = []" by simp
    have "milestones (contracts ?s2 cid) = []"
      using m1 run_locked_B_no_milestones[OF m1 q] by simp
    then show ?thesis unfolding e by (simp only: approve_end_fields)
  qed
next
  case False
  then have l: "exec_B s tx = exec_locked_B s tx"
    by (simp add: exec_B_def exec_locked_B_def step_B_locked)
  from False q have "\<not> is_addMilestones_on cid (snd tx)" by (simp add: calls_of_B_locked)
  with run_locked_B_no_milestones[OF m, of "[tx]"] show ?thesis by (simp add: l)
qed

lemma run_B_no_milestones:
  "milestones (contracts s cid) = [] \<Longrightarrow>
   \<forall>c \<in> set (calls_of_B txs). \<not> is_addMilestones_on cid (snd c) \<Longrightarrow>
   milestones (contracts (run_B s txs) cid) = []"
proof (induction txs arbitrary: s)
  case Nil
  then show ?case by simp
next
  case (Cons tx txs)
  from Cons.prems(2) have "(\<forall>c \<in> set (calls_of_B [tx]). \<not> is_addMilestones_on cid (snd c))
      \<and> (\<forall>c \<in> set (calls_of_B txs). \<not> is_addMilestones_on cid (snd c))"
    by (simp only: calls_of_B_Cons[of tx txs] ball_Un)
  then have q: "\<forall>c \<in> set (calls_of_B [tx]). \<not> is_addMilestones_on cid (snd c)"
    "\<forall>c \<in> set (calls_of_B txs). \<not> is_addMilestones_on cid (snd c)"
    by blast+
  from exec_B_no_milestones[OF Cons.prems(1) q(1)] Cons.IH[of "exec_B s tx"] q(2)
  show ?case by simp
qed
section \<open>Activation\<close>

text \<open>
  C5. In both versions of the ledger, \<open>activateContract\<close> on a contract with no
  milestone fails for every caller. On a contract in Draft with at least one milestone
  it succeeds and makes the contract Active when the caller is the sponsor (role-gated
  version; with a token as payment asset the sponsor's allowance must cover the total
  value) or the athlete or the sponsor (address-gated version). After a successful
  activation of a contract id that was created, every later \<open>activateContract\<close> on
  it, after any run of transactions, fails: with the InvalidState reason
  "Contract not in draft state" when the caller passes the caller check, with
  Unauthorized otherwise; the storage stays as it was.
\<close>

theorem activateContract_once:
  "(milestones (contracts s cid) = [] \<longrightarrow>
      isl (activateContract_B ext s sender cid) \<and> isl (activateContract_A s sender cid))
   \<and> (state (contracts s cid) = Draft \<and> milestones (contracts s cid) \<noteq> []
        \<and> sender = sponsor (contracts s cid)
        \<and> (paymentToken (contracts s cid) = 0
             \<or> (\<exists>al. token_allowance ext = Some al \<and> totalValue (contracts s cid) \<le> al))
      \<longrightarrow> (\<exists>s1. activateContract_B ext s sender cid = Inr s1
                 \<and> state (contracts s1 cid) = Active))
   \<and> (state (contracts s cid) = Draft \<and> milestones (contracts s cid) \<noteq> []
        \<and> (sender = athlete (contracts s cid) \<or> sender = sponsor (contracts s cid))
      \<longrightarrow> (\<exists>s1. activateContract_A s sender cid = Inr s1
                 \<and> state (contracts s1 cid) = Active))
   \<and> (unat cid < unat (contractCount s) \<and> activateContract_B ext s sender cid = Inr s1
      \<longrightarrow> (\<exists>msg. activateContract_B ext' (run_B s1 txs) sender' cid = Inl (Unauthorized, msg)
                 \<or> activateContract_B ext' (run_B s1 txs) sender' cid = Inl (InvalidState, msg))
          \<and> (sender' = sponsor (contracts (run_B s1 txs) cid)
               \<longrightarrow> activateContract_B ext' (run_B s1 txs) sender' cid
                     = Inl (InvalidState, ''Contract not in draft state''))
          \<and> exec_B (run_B s1 txs) (sender', B_activateContract ext' cid) = run_B s1 txs)
   \<and> (unat cid < unat (contractCount s) \<and> activateContract_A s sender cid = Inr s1
      \<longrightarrow> (\<exists>msg. activateContract_A (run_A s1 txsA) sender' cid = Inl (Unauthorized, msg)
                 \<or> activateContract_A (run_A s1 txsA) sender' cid = Inl (InvalidState, msg))
          \<and> (sender' = athlete (contracts (run_A s1 txsA) cid)
                \<or> sender' = sponsor (contracts (run_A s1 txsA) cid)
               \<longrightarrow> activateContract_A (run_A s1 txsA) sender' cid
                     = Inl (InvalidState, ''Contract not in draft state''))
          \<and> exec_A (run_A s1 txsA) (sender', A_activateContract cid) = run_A s1 txsA)"
proof (intro conjI impI)
  assume "milestones (contracts s cid) = []"
  then show "isl (activateContract_B ext s sender cid)" "isl (activateContract_A s sender cid)"
    by (simp_all add: activateContract_B_no_milestones activateContract_A_no_milestones)
next
  assume "state (contracts s cid) = Draft \<and> milestones (contracts s cid) \<noteq> []
        \<and> sender = sponsor (contracts s cid)
        \<and> (paymentToken (contracts s cid) = 0
             \<or> (\<exists>al. token_allowance ext = Some al \<and> totalValue (contracts s cid) \<le> al))"
  then show "\<exists>s1. activateContract_B ext s sender cid = Inr s1 \<and> state (contracts s1 cid) = Active"
    using activateContract_B_succeeds[of s cid sender ext] by auto
next
  assume "state (contracts s cid) = Draft \<and> milestones (contracts s cid) \<noteq> []
        \<and> (sender = athlete (contracts s cid) \<or> sender = sponsor (contracts s cid))"
  then show "\<exists>s1. activateContract_A s sender cid = Inr s1 \<and> state (contracts s1 cid) = Active"
    using activateContract_A_succeeds[of s cid sender] by auto
next
  assume h: "unat cid < unat (contractCount s) \<and> activateContract_B ext s sender cid = Inr s1"
  then have "activated cid s1"
    using activateContract_B_result[of ext s sender cid s1] by (simp add: activated_def)
  then have a: "activated cid (run_B s1 txs)" by (rule run_B_activated)
  note r = activateContract_B_again[OF a, of ext' sender']
  show "\<exists>msg. activateContract_B ext' (run_B s1 txs) sender' cid = Inl (Unauthorized, msg)
                 \<or> activateContract_B ext' (run_B s1 txs) sender' cid = Inl (InvalidState, msg)"
    unfolding r by auto
  show "exec_B (run_B s1 txs) (sender', B_activateContract ext' cid) = run_B s1 txs"
    by (simp add: exec_B_def r)
  assume "sender' = sponsor (contracts (run_B s1 txs) cid)"
  then show "activateContract_B ext' (run_B s1 txs) sender' cid
                     = Inl (InvalidState, ''Contract not in draft state'')"
    unfolding r by simp
next
  assume h: "unat cid < unat (contractCount s) \<and> activateContract_A s sender cid = Inr s1"
  then have "activated cid s1"
    using activateContract_A_result[of s sender cid s1] by (simp add: activated_def)
  then have a: "activated cid (run_A s1 txsA)" by (rule run_A_activated)
  note r = activateContract_A_again[OF a, of sender']
  show "\<exists>msg. activateContract_A (run_A s1 txsA) sender' cid = Inl (Unauthorized, msg)
                 \<or> activateContract_A (run_A s1 txsA) sender' cid = Inl (InvalidState, msg)"
    unfolding r by auto
  show "exec_A (run_A s1 txsA) (sender', A_activateContract cid) = run_A s1 txsA"
    by (simp add: exec_A_def r)
  assume "sender' = athlete (contracts (run_A s1 txsA) cid)
                \<or> sender' = sponsor (contracts (run_A s1 txsA) cid)"
  then show "activateContract_A (run_A s1 txsA) sender' cid
                     = Inl (InvalidState, ''Contract not in draft state'')"
    unfolding r by auto
qed

theorem activateContract_once_witness:
  "activateContract_B ext_ok (run_B demo_B demo_milestones) 3 0
     = Inr (exec_B (run_B demo_B demo_milestones) (3, B_activateContract ext_ok 0))
   \<and> state (contracts (exec_B (run_B demo_B demo_milestones) (3, B_activateContract ext_ok 0)) 0)
       = Active
   \<and> activateContract_B ext_ok
        (run_B (exec_B (run_B demo_B demo_milestones) (3, B_activateContract ext_ok 0))
           [(2, B_submitMilestone 0 0 ''ev0'')]) 3 0
       = Inl (InvalidState, ''Contract not in draft state'')
   \<and> isl (activateContract_B ext_ok demo_B 3 0)
   \<and> isl (activateContract_A demo_B 3 0)
   \<and> activateContract_A (run_B demo_B demo_milestones) 2 0
     = Inr (exec_B (run_B demo_B demo_milestones) (3, B_activateContract ext_ok 0))
   \<and> activateContract_A
        (run_A (exec_B (run_B demo_B demo_milestones) (3, B_activateContract ext_ok 0))
           [(2, A_completeMilestone 0 0 ''ev0'')]) 2 0
       = Inl (InvalidState, ''Contract not in draft state'')"
proof -
  let ?s = "run_B demo_B demo_milestones"
  let ?s1 = "exec_B ?s (3, B_activateContract ext_ok 0)"
  let ?txs = "[(2, B_submitMilestone 0 0 ''ev0'')] :: (address \<times> call_B) list"
  let ?txsA = "[(2, A_completeMilestone 0 0 ''ev0'')] :: (address \<times> call_A) list"
  have ok: "activateContract_B ext_ok ?s 3 0 = Inr ?s1"
    by (simp add: demo_milestones_contract0 demo_eval)
  have okA: "activateContract_A ?s 2 0 = Inr ?s1"
    by (simp add: demo_milestones_contract0 demo_eval A_defs)
  have cnt: "unat (0 :: uint256) < unat (contractCount ?s)"
    by (simp add: demo_milestones_count)
  have sp: "sponsor (contracts (run_B ?s1 ?txs) 0) = 3"
    by (simp add: demo_milestones_contract0 demo_eval)
  have spA: "athlete (contracts (run_A ?s1 ?txsA) 0) = 2"
    by (simp add: demo_milestones_contract0 demo_eval A_defs exec_A_def)
  have st: "state (contracts ?s1 0) = Active"
    by (simp add: demo_milestones_contract0 demo_eval)
  have nom: "milestones (contracts demo_B 0) = []"
    by (simp add: demo_B_contract0)
  from activateContract_once [where s=demo_B and cid=0 and ext=ext_ok and sender=3] nom
  have a: "isl (activateContract_B ext_ok demo_B 3 0)" "isl (activateContract_A demo_B 3 0)"
    by blast+
  from activateContract_once [where s="?s" and cid=0 and ext=ext_ok and sender=3 and ?s1.0="?s1" and ext'=ext_ok and txs="?txs" and sender'=3] ok cnt sp
  have b: "activateContract_B ext_ok (run_B ?s1 ?txs) 3 0
       = Inl (InvalidState, ''Contract not in draft state'')"
    by simp
  from activateContract_once [where s="?s" and cid=0 and sender=2 and ?s1.0="?s1" and txsA="?txsA" and sender'=2] okA cnt spA
  have c: "activateContract_A (run_A ?s1 ?txsA) 2 0
       = Inl (InvalidState, ''Contract not in draft state'')"
    by simp
  from ok okA st a b c show ?thesis by simp
qed

section \<open>Majority of the votes cast\<close>

text \<open>
  C1 (as amended). After a vote is recorded the dispute is resolved exactly when one
  tally strictly exceeds half (integer division) of the number of votes cast so far. On
  a dispute without votes the first vote is already such a majority: a successful first
  vote resolves the dispute at once in the direction of that vote, having called the
  ledger's \<open>resolveDispute\<close> with that direction, and waits for no second or third
  vote. A dispute that \<open>createDispute\<close> returns is without votes and not resolved when
  its record was still zero-initialized. While a record is resolved every vote on it
  fails, with the reason "Dispute already resolved" for a holder of the arbitrator role,
  and the storage stays as it was; and a dispute that \<open>createDispute\<close> has returned
  and that is resolved stays resolved through every run of transactions, so that every
  later vote on it fails in that way.
\<close>

theorem first_vote_resolves:
  "(voteOnDispute d l sender i f = Inr (d', l')
      \<longrightarrow> (resolved (disputes d' i) \<longleftrightarrow>
            (of_nat (length (votedArbitrators (disputes d' i))) :: uint256) div 2
                < athleteVotes (disputes d' i)
            \<or> (of_nat (length (votedArbitrators (disputes d' i))) :: uint256) div 2
                < sponsorVotes (disputes d' i)))
   \<and> (votedArbitrators (disputes d i) = [] \<and> athleteVotes (disputes d i) = 0
        \<and> sponsorVotes (disputes d i) = 0 \<and> voteOnDispute d l sender i f = Inr (d', l')
      \<longrightarrow> resolved (disputes d' i) \<and> athleteFavor (disputes d' i) = f
          \<and> votedArbitrators (disputes d' i) = [sender]
          \<and> resolveDispute_B l (dr_self d) (contractId (disputes d i)) f = Inr l'
          \<and> disputeCount d' = disputeCount d)
   \<and> (createDispute d l sender now cid ev rsn = Inr (d', l', i)
        \<and> disputes d (disputeCount d) = zero_dispute
      \<longrightarrow> i = disputeCount d \<and> unat i < unat (disputeCount d')
          \<and> \<not> resolved (disputes d' i) \<and> votedArbitrators (disputes d' i) = []
          \<and> athleteVotes (disputes d' i) = 0 \<and> sponsorVotes (disputes d' i) = 0)
   \<and> (resolved (disputes d i)
      \<longrightarrow> isl (voteOnDispute d l sender i f)
          \<and> exec_W (d, l) (sender, W_voteOnDispute i f) = (d, l))
   \<and> (resolved (disputes d i) \<and> dr_roles d ARBITRATOR_ROLE sender
      \<longrightarrow> voteOnDispute d l sender i f = Inl (InvalidState, ''Dispute already resolved''))
   \<and> (resolved (disputes d i) \<and> unat i < unat (disputeCount d)
      \<longrightarrow> resolved (disputes (fst (run_W (d, l) txs)) i)
          \<and> unat i < unat (disputeCount (fst (run_W (d, l) txs)))
          \<and> isl (voteOnDispute (fst (run_W (d, l) txs)) (snd (run_W (d, l) txs)) sender i f)
          \<and> exec_W (run_W (d, l) txs) (sender, W_voteOnDispute i f) = run_W (d, l) txs
          \<and> (dr_roles (fst (run_W (d, l) txs)) ARBITRATOR_ROLE sender
               \<longrightarrow> voteOnDispute (fst (run_W (d, l) txs)) (snd (run_W (d, l) txs)) sender i f
                     = Inl (InvalidState, ''Dispute already resolved'')))"
proof (intro conjI impI)
  assume "voteOnDispute d l sender i f = Inr (d', l')"
  then show "resolved (disputes d' i) \<longleftrightarrow>
            (of_nat (length (votedArbitrators (disputes d' i))) :: uint256) div 2
                < athleteVotes (disputes d' i)
            \<or> (of_nat (length (votedArbitrators (disputes d' i))) :: uint256) div 2
                < sponsorVotes (disputes d' i)"
    by (rule voteOnDispute_majority)
next
  assume h: "votedArbitrators (disputes d i) = [] \<and> athleteVotes (disputes d i) = 0
        \<and> sponsorVotes (disputes d i) = 0 \<and> voteOnDispute d l sender i f = Inr (d', l')"
  then have pre: "\<not> resolved (disputes d i)" "dr_roles d ARBITRATOR_ROLE sender"
    by (auto simp: voteOnDispute_def Let_def split: if_splits)
  from h have v: "voteOnDispute d l sender i f = Inr (d', l')" by simp
  note fr = voteOnDispute_fresh[OF h[THEN conjunct1] h[THEN conjunct2, THEN conjunct1]
      h[THEN conjunct2, THEN conjunct2, THEN conjunct1] pre, of l f]
  from v[unfolded fr]
  show "resolved (disputes d' i)" "athleteFavor (disputes d' i) = f"
    "votedArbitrators (disputes d' i) = [sender]"
    "resolveDispute_B l (dr_self d) (contractId (disputes d i)) f = Inr l'"
    by (auto split: sum.splits)
  from v show "disputeCount d' = disputeCount d" by (rule voteOnDispute_count)
next
  assume h: "createDispute d l sender now cid ev rsn = Inr (d', l', i)
        \<and> disputes d (disputeCount d) = zero_dispute"
  note r = createDispute_result[OF h[THEN conjunct1]]
  show i: "i = disputeCount d" by (rule r(1))
  show "unat i < unat (disputeCount d')" unfolding i by (rule r(2))
  from r(3) h have "disputes d' (disputeCount d) = zero_dispute
         \<lparr>contractId := cid, initiator := sender, evidenceIPFSHash := ev, reason := rsn,
          timestamp := now, resolved := False\<rparr>"
    by simp
  then show "\<not> resolved (disputes d' i)" "votedArbitrators (disputes d' i) = []"
    "athleteVotes (disputes d' i) = 0" "sponsorVotes (disputes d' i) = 0"
    unfolding i by (simp_all add: zero_dispute_def)
next
  assume r: "resolved (disputes d i)"
  show "isl (voteOnDispute d l sender i f)"
    by (simp add: voteOnDispute_resolved[OF r])
  show "exec_W (d, l) (sender, W_voteOnDispute i f) = (d, l)"
    by (simp add: exec_W_def voteOnDispute_resolved[OF r])
next
  assume "resolved (disputes d i) \<and> dr_roles d ARBITRATOR_ROLE sender"
  then show "voteOnDispute d l sender i f = Inl (InvalidState, ''Dispute already resolved'')"
    by (simp add: voteOnDispute_resolved)
next
  assume "resolved (disputes d i) \<and> unat i < unat (disputeCount d)"
  then have "settled i (fst (d, l))" by (simp add: settled_def)
  then have "settled i (fst (run_W (d, l) txs))" by (rule run_W_settled)
  then show r: "resolved (disputes (fst (run_W (d, l) txs)) i)"
    and "unat i < unat (disputeCount (fst (run_W (d, l) txs)))"
    by (simp_all add: settled_def)
  show "isl (voteOnDispute (fst (run_W (d, l) txs)) (snd (run_W (d, l) txs)) sender i f)"
    by (simp add: voteOnDispute_resolved[OF r])
  show "exec_W (run_W (d, l) txs) (sender, W_voteOnDispute i f) = run_W (d, l) txs"
    using r by (cases "run_W (d, l) txs") (simp add: exec_W_def voteOnDispute_resolved)
  assume "dr_roles (fst (run_W (d, l) txs)) ARBITRATOR_ROLE sender"
  then show "voteOnDispute (fst (run_W (d, l) txs)) (snd (run_W (d, l) txs)) sender i f
                     = Inl (InvalidState, ''Dispute already resolved'')"
    by (simp add: voteOnDispute_resolved[OF r])
qed

lemma demo_W_created:
  "\<exists>d0 l0. createDispute d0 l0 3 1500 0 ''QmEvidence'' ''late payment''
              = Inr (fst demo_W, snd demo_W, 0)
     \<and> disputes d0 (disputeCount d0) = zero_dispute"
proof -
  let ?w0 = "run_W (dr_init 9 1, ledger_init 1) (butlast demo_W_setup)"
  obtain d0 l0 where w0: "?w0 = (d0, l0)" by (cases ?w0)
  have "disputeCount (fst ?w0) = 0" "disputes (fst ?w0) 0 = zero_dispute"
    by (simp_all add: demo_W_setup_def dr_init_def ledger_init_def zero_contract_def W_eval)
  then have ev: "disputeCount d0 = 0" "disputes d0 0 = zero_dispute"
    by (simp_all add: w0)
  have "demo_W = exec_W ?w0 (3, W_createDispute 1500 0 ''QmEvidence'' ''late payment'')"
    by (simp add: demo_W_def demo_W_setup_def)
  then have sp: "demo_W
      = exec_W (d0, l0) (3, W_createDispute 1500 0 ''QmEvidence'' ''late payment'')"
    by (simp only: w0)
  show ?thesis
  proof (cases "createDispute d0 l0 3 1500 0 ''QmEvidence'' ''late payment''")
    case (Inl e)
    with sp have "demo_W = (d0, l0)" by (simp add: exec_W_def)
    then have "fst demo_W = fst (d0, l0)" by (rule arg_cong)
    then have "disputeCount (fst demo_W) = disputeCount d0" by (simp only: fst_conv)
    with demo_W_misc(2) ev(1) show ?thesis by simp
  next
    case (Inr r)
    obtain d' l' i where r: "r = (d', l', i)" by (cases r)
    from Inr r sp have w: "demo_W = (d', l')" by (simp add: exec_W_def)
    from createDispute_result(1)[OF Inr[unfolded r]] ev(1) have i: "i = 0" by simp
    have f: "fst demo_W = d'" "snd demo_W = l'" by (simp_all add: w)
    from Inr have c: "createDispute d0 l0 3 1500 0 ''QmEvidence'' ''late payment''
        = Inr (fst demo_W, snd demo_W, 0)"
      by (simp add: r i f)
    have z: "disputes d0 (disputeCount d0) = zero_dispute" by (simp add: ev)
    from c z show ?thesis by blast
  qed
qed

lemma demo_W_first_vote:
  "\<exists>d l d' l'. demo_W = (d, l) \<and> dr_roles d ARBITRATOR_ROLE 6
      \<and> votedArbitrators (disputes d 0) = [] \<and> athleteVotes (disputes d 0) = 0
      \<and> sponsorVotes (disputes d 0) = 0
      \<and> voteOnDispute d l 5 0 True = Inr (d', l')
      \<and> run_W demo_W [(5, W_voteOnDispute 0 True)] = (d', l')
      \<and> dr_roles d' ARBITRATOR_ROLE 6 \<and> dr_roles d' ARBITRATOR_ROLE 7
      \<and> state (contracts l' 0) = Active"
proof -
  obtain d l where w: "demo_W = (d, l)" by (cases demo_W)
  have c0: "state (contracts l 0) = Disputed" "arbitrators (contracts l 0) = [9]"
    using demo_W_ledger0 by (simp_all add: w)
  have m: "dr_self d = 9" "dr_roles d ARBITRATOR_ROLE 5" "dr_roles d ARBITRATOR_ROLE 6"
    "dr_roles d ARBITRATOR_ROLE 7"
    using demo_W_misc by (simp_all add: w)
  have z: "votedArbitrators (disputes d 0) = []" "athleteVotes (disputes d 0) = 0"
    "sponsorVotes (disputes d 0) = 0" "\<not> resolved (disputes d 0)"
    "contractId (disputes d 0) = 0"
    using demo_W_dispute0 by (simp_all add: w zero_dispute_def)
  let ?l' = "l\<lparr>contracts := (contracts l)(0 := (contracts l 0)\<lparr>state := Active\<rparr>)\<rparr>"
  have r: "resolveDispute_B l (dr_self d) 0 True = Inr ?l'"
    using c0 m by (simp add: resolveDispute_B_def Let_def)
  note fr = voteOnDispute_fresh[OF z(1-4) m(2), of l True, unfolded z(5) r]
  then obtain d' where v: "voteOnDispute d l 5 0 True = Inr (d', ?l')"
    and rl: "dr_roles d' = dr_roles d"
    by simp
  have e: "run_W demo_W [(5, W_voteOnDispute 0 True)] = (d', ?l')"
    using v by (simp add: exec_W_def w)
  show ?thesis
    using w m z v e rl by auto
qed

theorem first_vote_resolves_witness:
  "\<not> resolved (disputes (fst demo_W) 0)
   \<and> votedArbitrators (disputes (fst demo_W) 0) = []
   \<and> resolved (disputes (fst (run_W demo_W [(5, W_voteOnDispute 0 True)])) 0)
   \<and> athleteFavor (disputes (fst (run_W demo_W [(5, W_voteOnDispute 0 True)])) 0)
   \<and> votedArbitrators (disputes (fst (run_W demo_W [(5, W_voteOnDispute 0 True)])) 0) = [5]
   \<and> state (contracts (snd (run_W demo_W [(5, W_voteOnDispute 0 True)])) 0) = Active
   \<and> voteOnDispute (fst (run_W demo_W [(5, W_voteOnDispute 0 True)]))
        (snd (run_W demo_W [(5, W_voteOnDispute 0 True)])) 6 0 True
       = Inl (InvalidState, ''Dispute already resolved'')
   \<and> voteOnDispute
        (fst (run_W demo_W [(5, W_voteOnDispute 0 True), (6, W_voteOnDispute 0 False)]))
        (snd (run_W demo_W [(5, W_voteOnDispute 0 True), (6, W_voteOnDispute 0 False)]))
        7 0 False
       = Inl (InvalidState, ''Dispute already resolved'')"
proof -
  from demo_W_created obtain d0 l0 where
    cr: "createDispute d0 l0 3 1500 0 ''QmEvidence'' ''late payment''
           = Inr (fst demo_W, snd demo_W, 0)" and
    z0: "disputes d0 (disputeCount d0) = zero_dispute"
    by blast
  from demo_W_first_vote obtain d l d' l' where
    w: "demo_W = (d, l)" and a6: "dr_roles d' ARBITRATOR_ROLE 6" and
    a7: "dr_roles d' ARBITRATOR_ROLE 7" and
    v: "voteOnDispute d l 5 0 True = Inr (d', l')" and
    e: "run_W demo_W [(5, W_voteOnDispute 0 True)] = (d', l')" and
    st: "state (contracts l' 0) = Active"
    by blast
  from first_vote_resolves [where d=d0 and l=l0 and sender=3 and now=1500 and cid=0
      and ev="''QmEvidence''" and rsn="''late payment''" and d'="fst demo_W"
      and l'="snd demo_W" and i=0] cr z0
  have "unat (0 :: uint256) < unat (disputeCount (fst demo_W))
      \<and> \<not> resolved (disputes (fst demo_W) 0) \<and> votedArbitrators (disputes (fst demo_W) 0) = []
      \<and> athleteVotes (disputes (fst demo_W) 0) = 0 \<and> sponsorVotes (disputes (fst demo_W) 0) = 0"
    by blast
  then have z: "unat (0 :: uint256) < unat (disputeCount d)" "\<not> resolved (disputes d 0)"
    "votedArbitrators (disputes d 0) = []" "athleteVotes (disputes d 0) = 0"
    "sponsorVotes (disputes d 0) = 0"
    by (simp_all add: w)
  from first_vote_resolves [where d=d and l=l and sender=5 and i=0 and f=True and d'=d'
      and l'=l'] z(3-5) v
  have "resolved (disputes d' 0) \<and> athleteFavor (disputes d' 0) = True
      \<and> votedArbitrators (disputes d' 0) = [5] \<and> disputeCount d' = disputeCount d"
    by blast
  then have r: "resolved (disputes d' 0)" "athleteFavor (disputes d' 0)"
    "votedArbitrators (disputes d' 0) = [5]" "unat (0 :: uint256) < unat (disputeCount d')"
    using z(1) by simp_all
  from first_vote_resolves [where d=d' and l=l' and sender=6 and i=0 and f=True] r(1) a6
  have s: "voteOnDispute d' l' 6 0 True = Inl (InvalidState, ''Dispute already resolved'')"
    by blast
  from first_vote_resolves [where d=d' and l=l' and sender=6 and i=0 and f=False] r(1)
  have e6: "exec_W (d', l') (6, W_voteOnDispute 0 False) = (d', l')"
    by blast
  have e2: "run_W demo_W [(5, W_voteOnDispute 0 True), (6, W_voteOnDispute 0 False)]
      = run_W (d', l') [(6, W_voteOnDispute 0 False)]"
    using e by simp
  have e3: "run_W (d', l') [(6, W_voteOnDispute 0 False)] = (d', l')"
    using e6 by simp
  have a7': "dr_roles (fst (run_W (d', l') [(6, W_voteOnDispute 0 False)])) ARBITRATOR_ROLE 7"
    unfolding e3 using a7 by simp
  from first_vote_resolves [where d=d' and l=l' and sender=7 and i=0 and f=False
      and txs="[(6, W_voteOnDispute 0 False)]"] r(1,4) a7'
  have s7: "voteOnDispute (fst (run_W (d', l') [(6, W_voteOnDispute 0 False)]))
        (snd (run_W (d', l') [(6, W_voteOnDispute 0 False)])) 7 0 False
       = Inl (InvalidState, ''Dispute already resolved'')"
    by blast
  note s7' = s7[unfolded e3]
  show ?thesis
    unfolding e2 e3 e using z(2,3) r s s7' st by (simp add: w)
qed

text \<open>
  The claim as stated fails on the dispute of the example, with its three registered
  arbitrators 5, 6 and 7. After the votes (athlete-favor, sponsor-favor) of arbitrators 5
  and 6 the dispute is not Open: the first vote resolved it in the athlete's favor, the
  second was rejected and only one vote was recorded. After the votes (athlete-favor,
  athlete-favor) the same holds: the resolution came with the first vote, not the second.
\<close>

theorem first_vote_resolves_counterexample:
  "dr_roles (fst demo_W) ARBITRATOR_ROLE 5 \<and> dr_roles (fst demo_W) ARBITRATOR_ROLE 6
   \<and> dr_roles (fst demo_W) ARBITRATOR_ROLE 7
   \<and> \<not> resolved (disputes (fst demo_W) 0)
   \<and> resolved (disputes (fst (run_W demo_W [(5, W_voteOnDispute 0 True)])) 0)
   \<and> resolved (disputes (fst (run_W demo_W
        [(5, W_voteOnDispute 0 True), (6, W_voteOnDispute 0 False)])) 0)
   \<and> athleteFavor (disputes (fst (run_W demo_W
        [(5, W_voteOnDispute 0 True), (6, W_voteOnDispute 0 False)])) 0)
   \<and> votedArbitrators (disputes (fst (run_W demo_W
        [(5, W_voteOnDispute 0 True), (6, W_voteOnDispute 0 False)])) 0) = [5]
   \<and> votedArbitrators (disputes (fst (run_W demo_W
        [(5, W_voteOnDispute 0 True), (6, W_voteOnDispute 0 True)])) 0) = [5]"
proof -
  from demo_W_first_vote obtain d l d' l' where
    w: "demo_W = (d, l)" and a6: "dr_roles d' ARBITRATOR_ROLE 6" and
    z: "votedArbitrators (disputes d 0) = []" "athleteVotes (disputes d 0) = 0"
      "sponsorVotes (disputes d 0) = 0" and
    v: "voteOnDispute d l 5 0 True = Inr (d', l')" and
    e: "run_W demo_W [(5, W_voteOnDispute 0 True)] = (d', l')"
    by blast
  have pre: "\<not> resolved (disputes d 0)" "dr_roles d ARBITRATOR_ROLE 5"
    using v by (auto simp: voteOnDispute_def Let_def split: if_splits)
  note fr = voteOnDispute_fresh[OF z pre, of l True]
  from v[unfolded fr]
  have r: "resolved (disputes d' 0)" "athleteFavor (disputes d' 0)"
    "votedArbitrators (disputes d' 0) = [5]"
    by (auto split: sum.splits)
  have e1: "exec_W demo_W (5, W_voteOnDispute 0 True) = (d', l')"
    using e by simp
  have s: "exec_W (d', l') (6, W_voteOnDispute 0 f) = (d', l')" for f
    by (simp add: exec_W_def voteOnDispute_resolved[OF r(1)])
  have nr: "\<not> resolved (disputes (fst demo_W) 0)"
    using pre by (simp add: w)
  show ?thesis
    using demo_W_misc(3,4,5) nr r by (simp add: e1 s)
qed

section \<open>The paid flag\<close>

text \<open>
  C2. In both versions of the ledger the paid flag of a milestone is a one-way latch.
  A successful release (\<open>approveMilestone\<close>, \<open>releaseMilestonePayment\<close>) finds the
  flag false and leaves it true; no other successful call turns the flag of any milestone
  from false to true; once true the flag stays true through every run of transactions.
  On a paid milestone every release attempt fails, for every caller, and leaves the
  storage as it was; when the caller is the sponsor (the only account that passes the
  caller check, which comes first) the failure is of kind InvalidState. Every failed
  call leaves the storage as it was.
\<close>

theorem paid_is_one_way_latch:
  "(approveMilestone_B ext cb s sender cid idx = Inr s'
      \<longrightarrow> \<not> paid_at s cid (unat idx) \<and> paid_at s' cid (unat idx))
   \<and> (releaseMilestonePayment_A ext cbA s sender v cid idx = Inr s'
      \<longrightarrow> \<not> paid_at s cid (unat idx) \<and> paid_at s' cid (unat idx))
   \<and> (step_B s sender call = Inr s' \<and> \<not> paid_at s c i \<and> paid_at s' c i
      \<longrightarrow> (\<exists>ext cb idx. call = B_approveMilestone ext cb c idx \<and> unat idx = i))
   \<and> (step_A s sender callA = Inr s' \<and> \<not> paid_at s c i \<and> paid_at s' c i
      \<longrightarrow> (\<exists>ext cb v idx. callA = A_releaseMilestonePayment ext cb v c idx \<and> unat idx = i))
   \<and> (paid_at s c i \<longrightarrow> paid_at (run_B s txs) c i \<and> paid_at (run_A s txsA) c i)
   \<and> (paid_at s cid (unat idx)
      \<longrightarrow> isl (approveMilestone_B ext cb s sender cid idx)
          \<and> isl (releaseMilestonePayment_A ext cbA s sender v cid idx)
          \<and> exec_B s (sender, B_approveMilestone ext cb cid idx) = s
          \<and> exec_A s (sender, A_releaseMilestonePayment ext cbA v cid idx) = s)
   \<and> (paid_at s cid (unat idx) \<and> sender = sponsor (contracts s cid)
      \<longrightarrow> (\<exists>msg. approveMilestone_B ext cb s sender cid idx = Inl (InvalidState, msg))
          \<and> (\<exists>msg. releaseMilestonePayment_A ext cbA s sender v cid idx = Inl (InvalidState, msg)))
   \<and> (step_B s sender call = Inl e \<longrightarrow> exec_B s (sender, call) = s)
   \<and> (step_A s sender callA = Inl e \<longrightarrow> exec_A s (sender, callA) = s)"
proof (intro conjI impI)
  assume "approveMilestone_B ext cb s sender cid idx = Inr s'"
  then show "\<not> paid_at s cid (unat idx)" "paid_at s' cid (unat idx)"
    using approveMilestone_B_paid_iff(1)[of ext cb s sender cid idx s']
      approveMilestone_B_paid_iff(2)[of ext cb s sender cid idx s' cid "unat idx"]
    by simp_all
next
  assume "releaseMilestonePayment_A ext cbA s sender v cid idx = Inr s'"
  then show "\<not> paid_at s cid (unat idx)" "paid_at s' cid (unat idx)"
    using releaseMilestonePayment_A_paid_iff(1)[of ext cbA s sender v cid idx s']
      releaseMilestonePayment_A_paid_iff(2)[of ext cbA s sender v cid idx s' cid "unat idx"]
    by simp_all
next
  assume "step_B s sender call = Inr s' \<and> \<not> paid_at s c i \<and> paid_at s' c i"
  then show "\<exists>ext cb idx. call = B_approveMilestone ext cb c idx \<and> unat idx = i"
    using step_B_paid_origin by blast
next
  assume "step_A s sender callA = Inr s' \<and> \<not> paid_at s c i \<and> paid_at s' c i"
  then show "\<exists>ext cb v idx. callA = A_releaseMilestonePayment ext cb v c idx \<and> unat idx = i"
    using step_A_paid_origin by blast
next
  assume "paid_at s c i"
  then show "paid_at (run_B s txs) c i" "paid_at (run_A s txsA) c i"
    by (simp_all add: run_B_paid_latch run_A_paid_latch)
next
  assume p: "paid_at s cid (unat idx)"
  show "isl (approveMilestone_B ext cb s sender cid idx)"
    by (simp add: approveMilestone_B_paid[OF p])
  show "isl (releaseMilestonePayment_A ext cbA s sender v cid idx)"
    by (simp add: releaseMilestonePayment_A_paid[OF p])
  show "exec_B s (sender, B_approveMilestone ext cb cid idx) = s"
    by (simp add: exec_B_def approveMilestone_B_paid[OF p])
  show "exec_A s (sender, A_releaseMilestonePayment ext cbA v cid idx) = s"
    by (simp add: exec_A_def releaseMilestonePayment_A_paid[OF p])
next
  assume p: "paid_at s cid (unat idx) \<and> sender = sponsor (contracts s cid)"
  then show "\<exists>msg. approveMilestone_B ext cb s sender cid idx = Inl (InvalidState, msg)"
    by (simp add: approveMilestone_B_paid)
  from p show "\<exists>msg. releaseMilestonePayment_A ext cbA s sender v cid idx = Inl (InvalidState, msg)"
    by (simp add: releaseMilestonePayment_A_paid)
next
  assume "step_B s sender call = Inl e"
  then show "exec_B s (sender, call) = s" by (simp add: exec_B_def)
next
  assume "step_A s sender callA = Inl e"
  then show "exec_A s (sender, callA) = s" by (simp add: exec_A_def)
qed

theorem paid_is_one_way_latch_witness:
  "approveMilestone_B ext_ok []
       (run_B demo_B (demo_milestones @ [(3, B_activateContract ext_ok 0),
          (2, B_submitMilestone 0 0 ''ev0'')])) 3 0 0
     = Inr (run_B demo_B demo_first_payment)
   \<and> paid_at (run_B demo_B demo_first_payment) 0 0
   \<and> \<not> paid_at (run_B demo_B demo_first_payment) 0 1
   \<and> paid_at (run_B demo_B demo_second_payment) 0 0
   \<and> approveMilestone_B ext_ok [] (run_B demo_B demo_first_payment) 3 0 0
       = Inl (InvalidState, ''Payment already released'')
   \<and> exec_B (run_B demo_B demo_first_payment) (3, B_approveMilestone ext_ok [] 0 0)
       = run_B demo_B demo_first_payment
   \<and> paid_at (run_A ledger_init_A demo_txs_A) 0 0
   \<and> releaseMilestonePayment_A ext_ok [] (run_A ledger_init_A demo_txs_A) 3 100 0 0
       = Inl (InvalidState, ''Payment already released'')"
proof -
  let ?s0 = "run_B demo_B (demo_milestones @ [(3, B_activateContract ext_ok 0),
          (2, B_submitMilestone 0 0 ''ev0'')])"
  let ?s1 = "run_B demo_B demo_first_payment"
  let ?s2 = "run_B demo_B demo_second_payment"
  let ?a = "run_A ledger_init_A demo_txs_A"
  have ok: "approveMilestone_B ext_ok [] ?s0 3 0 0 = Inr ?s1"
    using demo_first_submitted by simp
  have p1: "paid_at ?s1 0 0"
    using paid_is_one_way_latch [where ext=ext_ok and cb="[]" and s="?s0" and sender=3
        and cid=0 and idx=0 and s'="?s1"] ok by simp
  have np: "\<not> paid_at ?s1 0 1"
    by (simp add: paid_at_def demo_first_payment_contract0)
  have s2: "?s2 = run_B ?s1 [(2, B_submitMilestone 0 1 ''ev1''), (3, B_approveMilestone ext_ok [] 0 1)]"
    by (simp add: demo_second_payment_def run_B_append)
  have p2: "paid_at ?s2 0 0"
    unfolding s2
    using paid_is_one_way_latch [where s="?s1" and c=0 and i=0
        and txs="[(2, B_submitMilestone 0 1 ''ev1''), (3, B_approveMilestone ext_ok [] 0 1)]"] p1
    by blast
  have sp: "sponsor (contracts ?s1 0) = 3" "state (contracts ?s1 0) = Active"
    "status (milestones (contracts ?s1 0) ! 0) = MsCompleted"
    by (simp_all add: demo_first_payment_contract0)
  have again: "approveMilestone_B ext_ok [] ?s1 3 0 0
       = Inl (InvalidState, ''Payment already released'')"
    using p1 sp by (simp add: approveMilestone_B_paid)
  have same: "exec_B ?s1 (3, B_approveMilestone ext_ok [] 0 0) = ?s1"
    using paid_is_one_way_latch [where s="?s1" and cid=0 and idx=0 and sender=3
        and ext=ext_ok and cb="[]"] p1 by simp
  have pa: "paid_at ?a 0 0"
    by (simp add: paid_at_def demo_A_contract0)
  have againA: "releaseMilestonePayment_A ext_ok [] ?a 3 100 0 0
       = Inl (InvalidState, ''Payment already released'')"
    using pa by (simp add: releaseMilestonePayment_A_paid demo_A_contract0)
  from ok p1 np p2 again same pa againA show ?thesis by blast
qed

section \<open>The sum of the milestone amounts\<close>

text \<open>
  C3. The check of \<open>addMilestones\<close> compares the sum of the amounts of the call with
  the total value, not the sum of the amounts stored on the contract. On the Draft
  contract of value 100 a first call with amounts 40 and 60 succeeds, and so does a
  second one with the same amounts: the contract is still in Draft and its stored
  amounts add up to 200.
\<close>

theorem addMilestones_twice:
  "map amount (milestones (contracts (run_B demo_B (demo_milestones @ demo_milestones)) 0))
     = [40, 60, 40, 60]
   \<and> totalValue (contracts (run_B demo_B (demo_milestones @ demo_milestones)) 0) = 100
   \<and> state (contracts (run_B demo_B (demo_milestones @ demo_milestones)) 0) = Draft
   \<and> addMilestones_B demo_B 2 0 [''m0'', ''m1''] [60, 30] [1010, 1020]
       = Inl (InvalidInput, ''Total milestone amounts must match contract value'')
   \<and> map amount (milestones (contracts
        (run_A (run_B demo_B demo_milestones)
           [(2, A_addMilestones 0 [''m0'', ''m1''] [40, 60] [1010, 1020])]) 0))
     = [40, 60, 40, 60]"
  unfolding run_B_append
  by (simp add: demo_milestones_contract0 demo_B_contract0 demo_B_roles demo_eval
      demo_milestones_def[of] exec_A_def A_defs)

section \<open>Completion\<close>





section \<open>Identifiers\<close>

text \<open>
  C6 (as amended). The identifiers of contracts and of disputes each form the series
  0, 1, 2, ... in the order of creation, one more per creation, and none is used twice.
  The identifiers of tokens form the series 1, 2, 3, ... (zero is the value that the
  table from contract ids to token ids reads for "no token"), one more per mint, and none
  is used twice, as long as the run is shorter than \<open>2 ^ 256\<close> transactions. The
  creations that a token contract makes while \<open>approveMilestone\<close> calls it are
  creations of the run.
\<close>

theorem ids_are_sequential:
  "map unat (created_ids_B (ledger_init d) txs)
     = [0 ..< length (created_ids_B (ledger_init d) txs)]
   \<and> distinct (created_ids_B (ledger_init d) txs)
   \<and> map unat (dispute_ids_W (dr_init self d', l) txsW)
       = [0 ..< length (dispute_ids_W (dr_init self d', l) txsW)]
   \<and> distinct (dispute_ids_W (dr_init self d', l) txsW)
   \<and> (length txsN < 2 ^ 256 \<longrightarrow>
        map unat (token_ids_N (nft_init d'') txsN)
          = [1 ..< Suc (length (token_ids_N (nft_init d'') txsN))]
        \<and> distinct (token_ids_N (nft_init d'') txsN))"
proof (intro conjI impI)
  have c0: "contractCount (ledger_init d) = 0" "disputeCount (dr_init self d') = 0"
    by (simp_all add: ledger_init_def dr_init_def)
  have "map unat (created_ids_B (ledger_init d) txs)
      = [0 ..< unat (contractCount (run_B (ledger_init d) txs))]"
    using created_ids_B_seq[of "ledger_init d" txs] by (simp add: c0)
  then show c: "map unat (created_ids_B (ledger_init d) txs)
     = [0 ..< length (created_ids_B (ledger_init d) txs)]"
    by (rule upt_of_map)
  show "distinct (created_ids_B (ledger_init d) txs)"
    by (rule distinct_of_unat) (simp only: c distinct_upt)
  have "map unat (dispute_ids_W (dr_init self d', l) txsW)
      = [0 ..< unat (disputeCount (fst (run_W (dr_init self d', l) txsW)))]"
    using dispute_ids_W_seq[of "(dr_init self d', l)" txsW] by (simp add: c0)
  then show w: "map unat (dispute_ids_W (dr_init self d', l) txsW)
       = [0 ..< length (dispute_ids_W (dr_init self d', l) txsW)]"
    by (rule upt_of_map)
  show "distinct (dispute_ids_W (dr_init self d', l) txsW)"
    by (rule distinct_of_unat) (simp only: w distinct_upt)
  assume len: "length txsN < 2 ^ 256"
  then show n: "map unat (token_ids_N (nft_init d'') txsN)
          = [1 ..< Suc (length (token_ids_N (nft_init d'') txsN))]"
    using token_ids_N_seq[of "nft_init d''" txsN] by (simp add: nft_init_def)
  show "distinct (token_ids_N (nft_init d'') txsN)"
    by (rule distinct_of_unat) (simp only: n distinct_upt)
qed

text \<open>
  The claim as stated fails for tokens: the first token the registry mints has id 1.
\<close>

theorem ids_are_sequential_counterexample:
  "token_ids_N (nft_init 1) demo_txs_N = [1] \<and> token_ids_N (nft_init 1) demo_txs_N \<noteq> [0]"
  by (simp add: demo_N_eval)

lemma demo_ids_eval:
  "length (created_ids_B (ledger_init 1) demo_two_contracts) = 2"
  "length (token_ids_N (nft_init 1) demo_two_tokens) = 2"
  "length demo_two_tokens = 2"
  by (simp_all add: demo_two_contracts_def demo_txs_B_def demo_two_tokens_def demo_txs_N_def
      ledger_init_def nft_init_def exec_B_def B_defs hasRole_def exec_N_def N_defs Let_def
      zero_contract_def)

theorem ids_are_sequential_witness:
  "map unat (created_ids_B (ledger_init 1) demo_two_contracts) = [0, 1]
   \<and> map unat (dispute_ids_W (dr_init 9 1, ledger_init 1) demo_W_setup) = [0]
   \<and> map unat (token_ids_N (nft_init 1) demo_two_tokens) = [1, 2]"
proof -
  have n: "length demo_two_tokens < 2 ^ 256" by (simp add: demo_ids_eval)
  have u: "[0 ..< 2] = [0, Suc 0]" "[Suc 0 ..< 3] = [Suc 0, 2]"
    by (simp_all add: upt_rec)
  from ids_are_sequential [where d=1 and txs=demo_two_contracts and self=9 and d'=1
      and l="ledger_init 1" and txsW=demo_W_setup and d''=1 and txsN=demo_two_tokens] n
  show ?thesis
    by (simp add: demo_ids_eval demo_W_misc u)
qed

section \<open>One token per contract\<close>

text \<open>
  C7. In every state the registry reaches from its constructor by fewer than
  \<open>2 ^ 256 - 1\<close> transactions (the counter of token ids has not wrapped around), two
  tokens that exist and belong to the same contract id are the same token; minting for a
  contract id that has a token fails for every caller and leaves the storage as it was,
  and fails with the AlreadyExists reason "NFT already minted for this contract" when the
  caller holds the minter role (the role check comes first). A second mint for the
  contract id of a mint that has just succeeded fails in the same way. \<open>getContractId\<close>
  of a token id that no mint of the run returned fails with NotFound.
\<close>

theorem one_token_per_contract:
  "(length txs < 2 ^ 256 - 1 \<longrightarrow>
      (owners (run_N (nft_init d) txs) t1 \<noteq> 0 \<and> owners (run_N (nft_init d) txs) t2 \<noteq> 0
         \<and> contractIdOf (run_N (nft_init d) txs) t1 = contractIdOf (run_N (nft_init d) txs) t2
       \<longrightarrow> t1 = t2)
      \<and> (owners (run_N (nft_init d) txs) t \<noteq> 0 \<and> contractIdOf (run_N (nft_init d) txs) t = cid
         \<longrightarrow> isl (mintSponsorshipNFT (run_N (nft_init d) txs) sender to cid uri)
             \<and> exec_N (run_N (nft_init d) txs) (sender, N_mintSponsorshipNFT to cid uri)
                 = run_N (nft_init d) txs)
      \<and> (owners (run_N (nft_init d) txs) t \<noteq> 0 \<and> contractIdOf (run_N (nft_init d) txs) t = cid
           \<and> nft_roles (run_N (nft_init d) txs) MINTER_ROLE sender
         \<longrightarrow> mintSponsorshipNFT (run_N (nft_init d) txs) sender to cid uri
               = Inl (AlreadyExists, ''NFT already minted for this contract'')))
   \<and> (mintSponsorshipNFT s sender to cid uri = Inr (s', t) \<and> tokenIds s \<noteq> - 1
        \<and> nft_roles s' MINTER_ROLE sender'
      \<longrightarrow> mintSponsorshipNFT s' sender' to' cid uri'
            = Inl (AlreadyExists, ''NFT already minted for this contract''))
   \<and> (t \<notin> set (token_ids_N (nft_init d) txs)
      \<longrightarrow> getContractId (run_N (nft_init d) txs) t = Inl (NotFound, ''Token does not exist''))"
proof (intro conjI impI)
  let ?s = "run_N (nft_init d) txs"
  {
    assume len: "length txs < 2 ^ 256 - 1"
    have "\<forall>t. owners (nft_init d) t \<noteq> 0
            \<longrightarrow> t \<noteq> 0 \<and> tokenIdOf (nft_init d) (contractIdOf (nft_init d) t) = t"
      by (simp add: nft_init_def)
    moreover have "unat (tokenIds (nft_init d)) + length txs < 2 ^ 256 - 1"
      using len by (simp add: nft_init_def)
    ultimately have "\<forall>t. owners ?s t \<noteq> 0 \<longrightarrow> t \<noteq> 0 \<and> tokenIdOf ?s (contractIdOf ?s t) = t"
      by (rule run_N_inv)
  }
  note inv = this
  {
    assume len: "length txs < 2 ^ 256 - 1"
      and h: "owners ?s t1 \<noteq> 0 \<and> owners ?s t2 \<noteq> 0 \<and> contractIdOf ?s t1 = contractIdOf ?s t2"
    from inv[OF len] h show "t1 = t2" by metis
  }
  {
    assume len: "length txs < 2 ^ 256 - 1"
      and h: "owners ?s t \<noteq> 0 \<and> contractIdOf ?s t = cid"
    from inv[OF len] h have nz: "tokenIdOf ?s cid \<noteq> 0" by metis
    then show "isl (mintSponsorshipNFT ?s sender to cid uri)"
      by (simp add: mintSponsorshipNFT_def)
    from nz show "exec_N ?s (sender, N_mintSponsorshipNFT to cid uri) = ?s"
      by (simp add: exec_N_def mintSponsorshipNFT_def)
  }
  {
    assume len: "length txs < 2 ^ 256 - 1"
      and h: "owners ?s t \<noteq> 0 \<and> contractIdOf ?s t = cid \<and> nft_roles ?s MINTER_ROLE sender"
    from inv[OF len] h have nz: "tokenIdOf ?s cid \<noteq> 0" by metis
    with h show "mintSponsorshipNFT ?s sender to cid uri
               = Inl (AlreadyExists, ''NFT already minted for this contract'')"
      by (simp add: mintSponsorshipNFT_def)
  }
  {
    assume h: "mintSponsorshipNFT s sender to cid uri = Inr (s', t) \<and> tokenIds s \<noteq> - 1
        \<and> nft_roles s' MINTER_ROLE sender'"
    then have m: "tokenIdOf s' cid = tokenIds s + 1"
      using mint_result[of s sender to cid uri s' t] by simp
    with h succ_not_zero[of "tokenIds s"] have "tokenIdOf s' cid \<noteq> 0" by simp
    with h show "mintSponsorshipNFT s' sender' to' cid uri'
            = Inl (AlreadyExists, ''NFT already minted for this contract'')"
      by (simp add: mintSponsorshipNFT_def)
  }
  {
    assume h: "t \<notin> set (token_ids_N (nft_init d) txs)"
    have "owners ?s t = 0"
      using owners_from_token_ids[of "nft_init d" txs t] h by (auto simp: nft_init_def)
    then show "getContractId ?s t = Inl (NotFound, ''Token does not exist'')"
      by (simp add: getContractId_def)
  }
qed

theorem one_token_per_contract_witness:
  "mintSponsorshipNFT demo_N 1 3 0 ''uri2''
     = Inl (AlreadyExists, ''NFT already minted for this contract'')
   \<and> getContractId demo_N 5 = Inl (NotFound, ''Token does not exist'')
   \<and> getContractId demo_N 1 = Inr 0"
proof -
  have len: "length demo_txs_N < 2 ^ 256 - 1" by (simp add: demo_N_eval)
  have nin: "(5 :: uint256) \<notin> set (token_ids_N (nft_init 1) demo_txs_N)"
    by (simp add: demo_N_eval)
  have ex: "owners demo_N 1 \<noteq> 0" by (simp add: demo_N_eval)
  note t = one_token_per_contract [where txs=demo_txs_N and d=1 and t=1 and cid=0
      and sender=1 and to=3 and uri="''uri2''", folded demo_N_def]
  note u = one_token_per_contract [where txs=demo_txs_N and d=1 and t=5, folded demo_N_def]
  from t len ex demo_N_eval(2,3)
  have a: "mintSponsorshipNFT demo_N 1 3 0 ''uri2''
     = Inl (AlreadyExists, ''NFT already minted for this contract'')" by blast
  from u nin have b: "getContractId demo_N 5 = Inl (NotFound, ''Token does not exist'')"
    by blast
  have c: "getContractId demo_N 1 = Inr 0"
    by (simp add: getContractId_def demo_N_eval)
  from a b c show ?thesis by blast
qed

section \<open>Votes on unknown dispute ids\<close>

text \<open>
  C9 (as amended). \<open>voteOnDispute\<close> does not check that the dispute id was created. On
  a dispute id whose record is still zero-initialized (as every record is at deployment,
  and as it stays for an id that \<open>createDispute\<close> has not returned and no vote or forced
  resolution has named, be it a transaction or a call made by a token contract while
  \<open>approveMilestone\<close> calls it), a vote by a holder of the arbitrator role never fails
  with NotFound: it passes the not-resolved check, counts as a strict majority and calls
  the ledger's \<open>resolveDispute\<close> on contract id 0 in the direction of the vote. The
  vote succeeds, leaving the record resolved in that direction with the voter as its only
  voter, exactly when that ledger call succeeds; when the ledger call reverts, the vote
  reverts with the ledger's error.
\<close>

theorem vote_on_unknown_dispute:
  "(disputes d i = zero_dispute \<and> dr_roles d ARBITRATOR_ROLE sender
      \<longrightarrow> (\<forall>msg. voteOnDispute d l sender i f \<noteq> Inl (NotFound, msg))
          \<and> (resolveDispute_B l (dr_self d) 0 f = Inr l'
               \<longrightarrow> (\<exists>d'. voteOnDispute d l sender i f = Inr (d', l')
                       \<and> resolved (disputes d' i) \<and> athleteFavor (disputes d' i) = f
                       \<and> votedArbitrators (disputes d' i) = [sender]
                       \<and> contractId (disputes d' i) = 0))
          \<and> (resolveDispute_B l (dr_self d) 0 f = Inl e
               \<longrightarrow> voteOnDispute d l sender i f = Inl e))
   \<and> (unat (disputeCount (fst (run_W (dr_init self dep, l0) txs))) \<le> unat i
        \<and> (\<forall>tx \<in> set (calls_of_W txs). \<not> votes_on i (snd tx))
      \<longrightarrow> disputes (fst (run_W (dr_init self dep, l0) txs)) i = zero_dispute)"
proof (intro conjI impI allI)
  {
    assume h: "disputes d i = zero_dispute \<and> dr_roles d ARBITRATOR_ROLE sender"
    then have z: "votedArbitrators (disputes d i) = []" "athleteVotes (disputes d i) = 0"
      "sponsorVotes (disputes d i) = 0" "\<not> resolved (disputes d i)"
      "contractId (disputes d i) = 0"
      by (simp_all add: zero_dispute_def)
    note v = voteOnDispute_fresh[OF z(1-4) h[THEN conjunct2], of l f, unfolded z(5)]
    {
      fix msg
      show "voteOnDispute d l sender i f \<noteq> Inl (NotFound, msg)"
        unfolding v using resolveDispute_B_errors[of l "dr_self d" 0 f]
        by (cases "resolveDispute_B l (dr_self d) 0 f") auto
    }
    {
      assume "resolveDispute_B l (dr_self d) 0 f = Inr l'"
      then show "\<exists>d'. voteOnDispute d l sender i f = Inr (d', l')
                       \<and> resolved (disputes d' i) \<and> athleteFavor (disputes d' i) = f
                       \<and> votedArbitrators (disputes d' i) = [sender]
                       \<and> contractId (disputes d' i) = 0"
        unfolding v using z(5) by simp
    }
    {
      assume "resolveDispute_B l (dr_self d) 0 f = Inl e"
      then show "voteOnDispute d l sender i f = Inl e"
        unfolding v by simp
    }
  }
  {
    assume h: "unat (disputeCount (fst (run_W (dr_init self dep, l0) txs))) \<le> unat i
        \<and> (\<forall>tx \<in> set (calls_of_W txs). \<not> votes_on i (snd tx))"
    have "disputes (fst (dr_init self dep, l0)) i = zero_dispute"
      by (simp add: dr_init_def)
    with h show "disputes (fst (run_W (dr_init self dep, l0) txs)) i = zero_dispute"
      using run_W_zero_dispute[of "(dr_init self dep, l0)" i txs] by blast
  }
qed

theorem vote_on_unknown_dispute_witness:
  "disputes (fst demo_W) 7 = zero_dispute
   \<and> resolved (disputes (fst (run_W demo_W [(5, W_voteOnDispute 7 False)])) 7)
   \<and> \<not> athleteFavor (disputes (fst (run_W demo_W [(5, W_voteOnDispute 7 False)])) 7)
   \<and> votedArbitrators (disputes (fst (run_W demo_W [(5, W_voteOnDispute 7 False)])) 7) = [5]
   \<and> state (contracts (snd (run_W demo_W [(5, W_voteOnDispute 7 False)])) 0) = Terminated"
proof -
  obtain d l where w: "demo_W = (d, l)" by (cases demo_W)
  have c0: "state (contracts l 0) = Disputed" "arbitrators (contracts l 0) = [9]"
    using demo_W_ledger0 by (simp_all add: w)
  have m: "dr_self d = 9" "dr_roles d ARBITRATOR_ROLE 5"
    using demo_W_misc by (simp_all add: w)
  let ?l' = "l\<lparr>contracts := (contracts l)(0 := (contracts l 0)\<lparr>state := Terminated\<rparr>)\<rparr>"
  have r: "resolveDispute_B l (dr_self d) 0 False = Inr ?l'"
    using c0 m by (simp add: resolveDispute_B_def Let_def)
  have s7: "\<forall>tx \<in> set (calls_of_W demo_W_setup). \<not> votes_on 7 (snd tx)"
    by (simp add: demo_W_setup_def)
  have c7: "unat (disputeCount (fst (run_W (dr_init 9 1, ledger_init 1) demo_W_setup)))
              \<le> unat (7 :: uint256)"
    using demo_W_misc(2) by (simp add: demo_W_def)
  note th = vote_on_unknown_dispute [where d=d and l=l and sender=5
      and i=7 and f=False and l'="?l'" and self=9 and dep=1 and ?l0.0="ledger_init 1"
      and txs=demo_W_setup]
  from th s7 c7 have z: "disputes (fst demo_W) 7 = zero_dispute"
    by (simp add: demo_W_def)
  then have zd: "disputes d 7 = zero_dispute" by (simp add: w)
  from th zd m(2) r obtain d' where
    d': "voteOnDispute d l 5 7 False = Inr (d', ?l')"
      "resolved (disputes d' 7)" "athleteFavor (disputes d' 7) = False"
      "votedArbitrators (disputes d' 7) = [5]"
    by blast
  from d'(1) have e: "run_W demo_W [(5, W_voteOnDispute 7 False)] = (d', ?l')"
    by (simp add: exec_W_def w)
  show ?thesis unfolding e using z d' by simp
qed

text \<open>
  The claim as stated fails right after deployment: DisputeResolution is no arbitrator
  for the ledger, the ledger refuses the call, and the vote of arbitrator 5 on the
  unknown dispute id 7 reverts.
\<close>

theorem vote_on_unknown_dispute_counterexample:
  "dr_roles (fst demo_W_fresh) ARBITRATOR_ROLE 5
   \<and> disputeCount (fst demo_W_fresh) = 0
   \<and> voteOnDispute (fst demo_W_fresh) (snd demo_W_fresh) 5 7 True
       = Inl (Unauthorized, ''Only arbitrator can resolve dispute'')"
  using demo_W_fresh_eval
  by (simp add: voteOnDispute_def resolveDispute_def resolveDispute_B_def Let_def
      zero_dispute_def zero_contract_def hasRole_def)

section \<open>Reads of unknown contract ids\<close>

text \<open>
  C10 (as amended). The reads of the ledger never fail. In every state the role-gated
  ledger reaches from its deployment through calls sent from non-zero addresses (the
  transactions and the calls a token contract makes while \<open>approveMilestone\<close> calls
  it), for every contract id greater than or equal to \<open>contractCount\<close>,
  \<open>getContractDetails\<close> returns the zero address for athlete and sponsor, zero for
  the total value, the start date and the end date, the Draft state and the zero
  payment-asset address; and \<open>getMilestoneCount\<close> returns zero when no
  \<open>addMilestones\<close> call of the run named that id.
\<close>

theorem reads_of_unknown_ids:
  "\<not> isl (getContractDetails_B s cid) \<and> \<not> isl (getMilestoneCount_B s cid)
   \<and> ((\<forall>tx \<in> set (calls_of_B txs). fst tx \<noteq> 0)
        \<and> unat (contractCount (run_B (ledger_init dep) txs)) \<le> unat cid
      \<longrightarrow> (\<exists>h. getContractDetails_B (run_B (ledger_init dep) txs) cid
                  = Inr (0, 0, h, 0, 0, 0, Draft, 0))
          \<and> ((\<forall>tx \<in> set (calls_of_B txs). \<not> is_addMilestones_on cid (snd tx))
               \<longrightarrow> getMilestoneCount_B (run_B (ledger_init dep) txs) cid = Inr 0))"
proof (intro conjI impI)
  show "\<not> isl (getContractDetails_B s cid)"
    by (simp add: getContractDetails_B_def Let_def)
  show "\<not> isl (getMilestoneCount_B s cid)"
    by (simp add: getMilestoneCount_B_def)
  have z: "unknown_fields (contracts (ledger_init dep) cid)"
    "milestones (contracts (ledger_init dep) cid) = []"
    by (simp_all add: unknown_fields_def ledger_init_def zero_contract_def)
  {
    assume h: "(\<forall>tx \<in> set (calls_of_B txs). fst tx \<noteq> 0)
        \<and> unat (contractCount (run_B (ledger_init dep) txs)) \<le> unat cid"
    then have "unknown_fields (contracts (run_B (ledger_init dep) txs) cid)"
      using run_B_unknown[OF z(1), of txs] by blast
    then show "\<exists>h. getContractDetails_B (run_B (ledger_init dep) txs) cid
                  = Inr (0, 0, h, 0, 0, 0, Draft, 0)"
      by (simp add: getContractDetails_B_def Let_def unknown_fields_def)
  }
  {
    assume "\<forall>tx \<in> set (calls_of_B txs). \<not> is_addMilestones_on cid (snd tx)"
    then have "milestones (contracts (run_B (ledger_init dep) txs) cid) = []"
      using run_B_no_milestones[OF z(2), of txs] by blast
    then show "getMilestoneCount_B (run_B (ledger_init dep) txs) cid = Inr 0"
      by (simp add: getMilestoneCount_B_def)
  }
qed

theorem reads_of_unknown_ids_witness:
  "contractCount demo_B = 1
   \<and> getContractDetails_B demo_B 7 = Inr (0, 0, [], 0, 0, 0, Draft, 0)
   \<and> getMilestoneCount_B demo_B 7 = Inr 0"
proof -
  have s: "\<forall>tx \<in> set (calls_of_B demo_txs_B). fst tx \<noteq> 0"
    "\<forall>tx \<in> set (calls_of_B demo_txs_B). \<not> is_addMilestones_on 7 (snd tx)"
    by (simp_all add: demo_txs_B_def)
  have c: "unat (contractCount (run_B (ledger_init 1) demo_txs_B)) \<le> unat (7 :: uint256)"
    using demo_B_count by (simp add: demo_B_def)
  have h: "contractIPFSHash (contracts demo_B 7) = []"
    by (simp add: demo_B_def demo_txs_B_def run_B_def exec_B_def ledger_init_def B_defs
        hasRole_def zero_contract_def Let_def)
  from reads_of_unknown_ids [where txs=demo_txs_B and dep=1 and cid=7] s c
  obtain x where "getContractDetails_B demo_B 7 = Inr (0, 0, x, 0, 0, 0, Draft, 0)"
    and m: "getMilestoneCount_B demo_B 7 = Inr 0"
    unfolding demo_B_def by blast
  with h have "getContractDetails_B demo_B 7 = Inr (0, 0, [], 0, 0, 0, Draft, 0)"
    by (simp add: getContractDetails_B_def Let_def)
  with m demo_B_count show ?thesis by simp
qed

text \<open>
  The claim as stated fails for \<open>getMilestoneCount\<close>: \<open>addMilestones\<close> does not
  check that the contract exists either, and the caller check lets a holder of the agent
  role through. After agent 4 added one milestone of amount 0 to the id 7, which is not
  below \<open>contractCount\<close>, the count of milestones of id 7 is 1.
\<close>

theorem reads_of_unknown_ids_counterexample:
  "contractCount demo_B_phantom = 1
   \<and> getMilestoneCount_B demo_B_phantom 7 = Inr 1"
  by (simp add: demo_B_phantom_def demo_B_def demo_txs_B_def run_B_def exec_B_def
      ledger_init_def B_defs hasRole_def zero_contract_def Let_def getMilestoneCount_B_def)

section \<open>The sum check of one call\<close>

text \<open>
  What the check of \<open>addMilestones\<close> does enforce, in both versions of the ledger. A
  successful call is made on a Draft contract, appends exactly the amounts of the call
  to the stored ones, and the amounts of the call add up to the total value; so after a
  successful call on a contract without milestones the stored amounts add up to the
  total value. A call that passes the caller, state and length checks and whose amounts
  add up (without overflow) to something else than the total value fails with
  "Total milestone amounts must match contract value" and adds nothing.
\<close>

theorem addMilestones_checks_call_sum:
  "(addMilestones_B s sender cid ds as dls = Inr s'
      \<longrightarrow> state (contracts s cid) = Draft
          \<and> map amount (milestones (contracts s' cid))
              = map amount (milestones (contracts s cid)) @ as
          \<and> sum_list (map unat as) = unat (totalValue (contracts s cid))
          \<and> totalValue (contracts s' cid) = totalValue (contracts s cid))
   \<and> (addMilestones_A s sender cid ds as dls = Inr s'
      \<longrightarrow> state (contracts s cid) = Draft
          \<and> map amount (milestones (contracts s' cid))
              = map amount (milestones (contracts s cid)) @ as
          \<and> sum_list (map unat as) = unat (totalValue (contracts s cid))
          \<and> totalValue (contracts s' cid) = totalValue (contracts s cid))
   \<and> ((sender = athlete (contracts s cid) \<or> sender = sponsor (contracts s cid)
          \<or> hasRole s AGENT_ROLE sender)
        \<and> state (contracts s cid) = Draft
        \<and> length ds = length as \<and> length as = length dls
        \<and> sum_list (map unat as) < 2 ^ 256
        \<and> sum_list (map unat as) \<noteq> unat (totalValue (contracts s cid))
      \<longrightarrow> addMilestones_B s sender cid ds as dls
            = Inl (InvalidInput, ''Total milestone amounts must match contract value'')
          \<and> exec_B s (sender, B_addMilestones cid ds as dls) = s)
   \<and> ((sender = athlete (contracts s cid) \<or> sender = sponsor (contracts s cid))
        \<and> state (contracts s cid) = Draft
        \<and> length ds = length as \<and> length as = length dls
        \<and> sum_list (map unat as) < 2 ^ 256
        \<and> sum_list (map unat as) \<noteq> unat (totalValue (contracts s cid))
      \<longrightarrow> addMilestones_A s sender cid ds as dls
            = Inl (InvalidInput, ''Total milestone amounts must match contract value'')
          \<and> exec_A s (sender, A_addMilestones cid ds as dls) = s)"
proof (intro conjI impI)
  {
    assume ok: "addMilestones_B s sender cid ds as dls = Inr s'"
    then show "state (contracts s cid) = Draft"
      by (auto simp: addMilestones_B_def Let_def split: if_splits)
    from addMilestones_B_result[OF ok]
    show "map amount (milestones (contracts s' cid))
              = map amount (milestones (contracts s cid)) @ as"
      "sum_list (map unat as) = unat (totalValue (contracts s cid))"
      "totalValue (contracts s' cid) = totalValue (contracts s cid)"
      by auto
  }
  {
    assume ok: "addMilestones_A s sender cid ds as dls = Inr s'"
    then show "state (contracts s cid) = Draft"
      by (auto simp: addMilestones_A_def Let_def split: if_splits)
    from addMilestones_A_result[OF ok]
    show "map amount (milestones (contracts s' cid))
              = map amount (milestones (contracts s cid)) @ as"
      "sum_list (map unat as) = unat (totalValue (contracts s cid))"
      "totalValue (contracts s' cid) = totalValue (contracts s cid)"
      by auto
  }
  {
    assume h: "(sender = athlete (contracts s cid) \<or> sender = sponsor (contracts s cid)
          \<or> hasRole s AGENT_ROLE sender)
        \<and> state (contracts s cid) = Draft
        \<and> length ds = length as \<and> length as = length dls
        \<and> sum_list (map unat as) < 2 ^ 256
        \<and> sum_list (map unat as) \<noteq> unat (totalValue (contracts s cid))"
    then obtain t ms' where
      l: "addMilestones_loop ds as dls 0 (milestones (contracts s cid)) = Inr (t, ms')"
      using addMilestones_loop_succeeds[of ds as dls 0 "milestones (contracts s cid)"]
      by auto
    from addMilestones_loop_appends[OF l] h have "unat t = sum_list (map unat as)"
      by auto
    with h have "t \<noteq> totalValue (contracts s cid)" by auto
    with h l show r: "addMilestones_B s sender cid ds as dls
            = Inl (InvalidInput, ''Total milestone amounts must match contract value'')"
      by (simp add: addMilestones_B_def Let_def)
    show "exec_B s (sender, B_addMilestones cid ds as dls) = s"
      by (simp add: exec_B_def r)
  }
  {
    assume h: "(sender = athlete (contracts s cid) \<or> sender = sponsor (contracts s cid))
        \<and> state (contracts s cid) = Draft
        \<and> length ds = length as \<and> length as = length dls
        \<and> sum_list (map unat as) < 2 ^ 256
        \<and> sum_list (map unat as) \<noteq> unat (totalValue (contracts s cid))"
    then obtain t ms' where
      l: "addMilestones_loop ds as dls 0 (milestones (contracts s cid)) = Inr (t, ms')"
      using addMilestones_loop_succeeds[of ds as dls 0 "milestones (contracts s cid)"]
      by auto
    from addMilestones_loop_appends[OF l] h have "unat t = sum_list (map unat as)"
      by auto
    with h have "t \<noteq> totalValue (contracts s cid)" by auto
    with h l show r: "addMilestones_A s sender cid ds as dls
            = Inl (InvalidInput, ''Total milestone amounts must match contract value'')"
      by (simp add: addMilestones_A_def Let_def)
    show "exec_A s (sender, A_addMilestones cid ds as dls) = s"
      by (simp add: exec_A_def r)
  }
qed

theorem addMilestones_checks_call_sum_witness:
  "addMilestones_B demo_B 2 0 [''m0'', ''m1''] [40, 60] [1010, 1020]
     = Inr (run_B demo_B demo_milestones)
   \<and> map amount (milestones (contracts (run_B demo_B demo_milestones) 0)) = [40, 60]
   \<and> addMilestones_B demo_B 2 0 [''m0'', ''m1''] [60, 30] [1010, 1020]
       = Inl (InvalidInput, ''Total milestone amounts must match contract value'')
   \<and> addMilestones_A demo_B 2 0 [''m0'', ''m1''] [60, 30] [1010, 1020]
       = Inl (InvalidInput, ''Total milestone amounts must match contract value'')"
proof -
  have ok: "addMilestones_B demo_B 2 0 [''m0'', ''m1''] [40, 60] [1010, 1020]
     = Inr (run_B demo_B demo_milestones)"
    by (simp add: demo_milestones_def demo_B_contract0 demo_eval)
  have c: "athlete (contracts demo_B 0) = 2" "state (contracts demo_B 0) = Draft"
    "totalValue (contracts demo_B 0) = 100" "milestones (contracts demo_B 0) = []"
    by (simp_all add: demo_B_contract0)
  have n: "sum_list (map unat [60, 30 :: uint256]) = 90" by simp
  note t1 = addMilestones_checks_call_sum [where s=demo_B and sender=2 and cid=0
      and ds="[''m0'', ''m1'']" and as="[40, 60]" and dls="[1010, 1020]"
      and s'="run_B demo_B demo_milestones"]
  note t2 = addMilestones_checks_call_sum [where s=demo_B and sender=2 and cid=0
      and ds="[''m0'', ''m1'']" and as="[60, 30]" and dls="[1010, 1020]"]
  from t1 ok c have a: "map amount (milestones (contracts (run_B demo_B demo_milestones) 0))
      = [40, 60]"
    by simp
  from t2 c n have b: "addMilestones_B demo_B 2 0 [''m0'', ''m1''] [60, 30] [1010, 1020]
       = Inl (InvalidInput, ''Total milestone amounts must match contract value'')"
    "addMilestones_A demo_B 2 0 [''m0'', ''m1''] [60, 30] [1010, 1020]
       = Inl (InvalidInput, ''Total milestone amounts must match contract value'')"
    by simp_all
  from ok a b show ?thesis by simp
qed

section \<open>Document updates\<close>

text \<open>
  C8. In both versions of the ledger and whatever the lifecycle state of the contract
  is, a successful \<open>updateContract\<close> appends the document reference the contract held
  before the call to the update history and then stores the new reference: the history
  grows by exactly one entry, its newest entry is the reference held before the call, and
  the reference held afterwards is the new one. The call succeeds in every state when the
  caller is the athlete or the sponsor (or, in the role-gated version, an agent).
\<close>

theorem updateContract_pushes_history:
  "(updateContract_B s sender cid h = Inr s' \<longrightarrow>
      length (updateHistory (contracts s' cid)) = Suc (length (updateHistory (contracts s cid)))
      \<and> last (updateHistory (contracts s' cid)) = contractIPFSHash (contracts s cid)
      \<and> butlast (updateHistory (contracts s' cid)) = updateHistory (contracts s cid)
      \<and> contractIPFSHash (contracts s' cid) = h
      \<and> state (contracts s' cid) = state (contracts s cid))
   \<and> (updateContract_A s sender cid h = Inr s' \<longrightarrow>
      length (updateHistory (contracts s' cid)) = Suc (length (updateHistory (contracts s cid)))
      \<and> last (updateHistory (contracts s' cid)) = contractIPFSHash (contracts s cid)
      \<and> butlast (updateHistory (contracts s' cid)) = updateHistory (contracts s cid)
      \<and> contractIPFSHash (contracts s' cid) = h
      \<and> state (contracts s' cid) = state (contracts s cid))
   \<and> (sender = athlete (contracts s cid) \<or> sender = sponsor (contracts s cid)
        \<or> hasRole s AGENT_ROLE sender
      \<longrightarrow> (\<exists>t. updateContract_B s sender cid h = Inr t))
   \<and> (sender = athlete (contracts s cid) \<or> sender = sponsor (contracts s cid)
      \<longrightarrow> (\<exists>t. updateContract_A s sender cid h = Inr t))"
  by (auto simp: updateContract_B_def updateContract_A_def Let_def split: if_splits)

theorem updateContract_pushes_history_witness:
  "updateContract_B demo_B 2 0 ''QmNew'' = Inr (exec_B demo_B (2, B_updateContract 0 ''QmNew''))
   \<and> updateContract_A demo_B 2 0 ''QmNew'' = Inr (exec_B demo_B (2, B_updateContract 0 ''QmNew''))
   \<and> updateHistory (contracts (exec_B demo_B (2, B_updateContract 0 ''QmNew'')) 0) = [''QmDoc'']
   \<and> contractIPFSHash (contracts (exec_B demo_B (2, B_updateContract 0 ''QmNew'')) 0) = ''QmNew''"
proof -
  let ?s' = "exec_B demo_B (2, B_updateContract 0 ''QmNew'')"
  have b: "updateContract_B demo_B 2 0 ''QmNew'' = Inr ?s'"
    by (simp add: exec_B_def updateContract_B_def demo_B_contract0 Let_def)
  have a: "updateContract_A demo_B 2 0 ''QmNew'' = Inr ?s'"
    by (simp add: exec_B_def updateContract_B_def updateContract_A_def demo_B_contract0 Let_def)
  have h: "length (updateHistory (contracts ?s' 0)) = Suc 0 \<Longrightarrow>
        last (updateHistory (contracts ?s' 0)) = ''QmDoc'' \<Longrightarrow>
        updateHistory (contracts ?s' 0) = [''QmDoc'']"
    by (cases "updateHistory (contracts ?s' 0)") auto
  from updateContract_pushes_history [of demo_B 2 0 "''QmNew''" ?s'] a b h
  show ?thesis
    by (simp add: demo_B_contract0)
qed


end
